theory Spec2Isabelle
  imports Complex_Main "HOL-Library.Multiset" "HOL-Library.Log_Nat"
begin

section \<open>Time, rows of the record store, JSON documents\<close>

text \<open>
  Instants are microseconds since the epoch (the resolution of a \<^verbatim>\<open>TIMESTAMPTZ\<close> column);
  durations are microseconds.  PostgreSQL \<^verbatim>\<open>numeric\<close> values are exact reals.  A Go
  \<^verbatim>\<open>float64\<close> is the real number the double holds; \<^verbatim>\<open>rows.Scan\<close> and every arithmetic
  operation of Go round to the nearest double, as defined below.
\<close>

type_synonym instant = int

definition second :: int where
  "second = 1000000"

definition minute :: int where
  "minute = 60 * second"

definition hour :: int where
  "hour = 60 * minute"

text \<open>\<^verbatim>\<open>time_bucket('1 hour', time)\<close>: the start of the bucket of width \<open>w\<close> that holds \<open>t\<close>.\<close>

definition time_bucket :: "int \<Rightarrow> instant \<Rightarrow> instant" where
  "time_bucket w t = t - t mod w"

text \<open>
  A row of \<^verbatim>\<open>api_requests\<close>, with the columns the ingestion service always writes
  (\<^verbatim>\<open>handleIngest\<close> binds every parameter of its INSERT); \<^verbatim>\<open>metadata\<close> stays nullable, as
  the queries themselves guard it with \<^verbatim>\<open>COALESCE\<close>.  The JSONB value is kept in its text form.
  The column \<^verbatim>\<open>method\<close> is the field \<open>http_method\<close>.
\<close>

record UsageRecord =
  time :: instant
  organization_id :: int
  request_id :: string
  provider :: string
  endpoint :: string
  http_method :: string
  status_code :: int
  latency_ms :: int
  cost :: real
  metadata :: "string option"

text \<open>
  JSON documents, as \<^verbatim>\<open>json.Marshal\<close> produces them.  \<open>JTime t\<close> stands for the RFC 3339
  string of the instant \<open>t\<close> (how Go marshals a \<^verbatim>\<open>time.Time\<close>).  \<open>JNum x\<close> of a float64
  field stands for the shortest decimal that reads back as the double \<open>x\<close>, which is how Go
  prints it: the double of value 0.3000000000000000444 is printed 0.30000000000000004.
\<close>

datatype json =
    JNull
  | JBool bool
  | JNum real
  | JStr string
  | JTime instant
  | JArr "json list"
  | JObj "(string \<times> json) list"

text \<open>
  A value held by the cache is a byte string: either the encoding of a JSON document, or
  bytes that \<^verbatim>\<open>json.Unmarshal\<close> rejects.
\<close>

datatype bytes = Json json | Malformed string

section \<open>float64 arithmetic\<close>

text \<open>Rounding to the nearest integer, ties to the even one.\<close>

definition round_half_even :: "real \<Rightarrow> int" where
  "round_half_even y =
     (if y - of_int \<lfloor>y\<rfloor> < 1 / 2 then \<lfloor>y\<rfloor>
      else if 1 / 2 < y - of_int \<lfloor>y\<rfloor> then \<lfloor>y\<rfloor> + 1
      else if even \<lfloor>y\<rfloor> then \<lfloor>y\<rfloor> else \<lfloor>y\<rfloor> + 1)"

text \<open>The exponent \<open>k\<close> with \<open>2 ^ k \<le> x < 2 ^ (k + 1)\<close>, for a positive \<open>x\<close>.\<close>

definition binade :: "real \<Rightarrow> int" where
  "binade x = (if 1 \<le> x then bitlen \<lfloor>x\<rfloor> - 1 else - bitlen (\<lceil>1 / x\<rceil> - 1))"

text \<open>
  The double nearest to \<open>x\<close> (IEEE 754 binary64, round to nearest, ties to even): 53
  significant bits, the spacing below \<open>2 ^ -1022\<close> fixed at \<open>2 ^ -1074\<close>.  This is what
  \<^verbatim>\<open>rows.Scan\<close> stores for a numeric column, what a Go constant such as \<^verbatim>\<open>0.8\<close> denotes, and
  how every float64 operation rounds its exact result.  Results of \<open>2 ^ 1024\<close> and more,
  which IEEE makes infinite, get no special value: sums of a \<^verbatim>\<open>DECIMAL(10, 6)\<close> column over
  fewer than \<open>2 ^ 63\<close> rows, and their products with a percentage, stay far below.
\<close>

definition float64 :: "real \<Rightarrow> real" where
  "float64 x =
     (if x = 0 then 0
      else (let e = max (binade \<bar>x\<bar>) (- 1022) - 52
            in sgn x * (of_int (round_half_even (\<bar>x\<bar> / 2 powi e)) * 2 powi e)))"

text \<open>Go's \<^verbatim>\<open>+\<close>, \<^verbatim>\<open>-\<close>, \<^verbatim>\<open>*\<close> and \<^verbatim>\<open>/\<close> on float64 (the callers keep the divisor non-zero).\<close>

definition fadd :: "real \<Rightarrow> real \<Rightarrow> real" where
  "fadd a b = float64 (a + b)"

definition fsub :: "real \<Rightarrow> real \<Rightarrow> real" where
  "fsub a b = float64 (a - b)"

definition fmul :: "real \<Rightarrow> real \<Rightarrow> real" where
  "fmul a b = float64 (a * b)"

definition fdiv :: "real \<Rightarrow> real \<Rightarrow> real" where
  "fdiv a b = float64 (a / b)"

section \<open>The record store and the derived-state cache\<close>

datatype db_error = QueryFailed

datatype store = Unavailable | Online "UsageRecord list"

text \<open>\<^verbatim>\<open>s.db.QueryContext(ctx, query)\<close>: the rows of the query over the table, or an error.\<close>

definition QueryContext :: "store \<Rightarrow> (UsageRecord list \<Rightarrow> 'row list) \<Rightarrow> db_error + 'row list" where
  "QueryContext db query = (case db of Unavailable \<Rightarrow> Inl QueryFailed | Online tbl \<Rightarrow> Inr (query tbl))"

text \<open>
  The Redis server: whether the client reaches it, the keys with their value and the
  instant they expire at, and the messages published so far, per channel, oldest first.
\<close>

record cache =
  reachable :: bool
  entries :: "string \<rightharpoonup> (bytes \<times> instant)"
  published :: "(string \<times> bytes) list"

datatype redis_error = RedisNil | RedisDown

text \<open>\<^verbatim>\<open>redis.Set(ctx, key, value, ttl)\<close> at cache time \<open>cnow\<close>; the callers drop its error.\<close>

definition redis_Set :: "cache \<Rightarrow> instant \<Rightarrow> string \<Rightarrow> bytes \<Rightarrow> int \<Rightarrow> cache" where
  "redis_Set c cnow key v ttl =
     (if reachable c then c\<lparr>entries := (entries c)(key \<mapsto> (v, cnow + ttl))\<rparr> else c)"

text \<open>\<^verbatim>\<open>redis.Get(ctx, key).Result()\<close> at cache time \<open>cnow\<close>: an expired key is absent.\<close>

definition redis_Get :: "cache \<Rightarrow> instant \<Rightarrow> string \<Rightarrow> redis_error + bytes" where
  "redis_Get c cnow key =
     (if \<not> reachable c then Inl RedisDown
      else case entries c key of
             None \<Rightarrow> Inl RedisNil
           | Some (v, expires) \<Rightarrow> if cnow < expires then Inr v else Inl RedisNil)"

text \<open>\<^verbatim>\<open>redis.Publish(ctx, channel, message)\<close>.\<close>

definition redis_Publish :: "cache \<Rightarrow> string \<Rightarrow> bytes \<Rightarrow> cache" where
  "redis_Publish c channel msg =
     (if reachable c then c\<lparr>published := published c @ [(channel, msg)]\<rparr> else c)"

section \<open>SQL building blocks\<close>

text \<open>
  \<^verbatim>\<open>GROUP BY key\<close>: one group per distinct key, holding the rows with that key.  The order of
  the groups is not fixed by SQL; the model takes the order in which the keys occur last.
\<close>

definition group_by :: "('r \<Rightarrow> 'k) \<Rightarrow> 'r list \<Rightarrow> ('k \<times> 'r list) list" where
  "group_by key rows = map (\<lambda>k. (k, filter (\<lambda>r. key r = k) rows)) (remdups (map key rows))"

text \<open>
  \<^verbatim>\<open>ORDER BY f DESC\<close>.  SQL leaves the order of rows with equal keys open; the model
  fixes one such order, and no theorem below depends on which.
\<close>

definition order_by_desc :: "('r \<Rightarrow> 'a::linorder) \<Rightarrow> 'r list \<Rightarrow> 'r list" where
  "order_by_desc f rows = rev (sort_key f rows)"

definition sql_SUM :: "real list \<Rightarrow> real" where
  "sql_SUM xs = sum_list xs"

definition sql_AVG :: "real list \<Rightarrow> real" where
  "sql_AVG xs = sum_list xs / real (length xs)"

text \<open>\<^verbatim>\<open>STDDEV\<close> is the sample standard deviation: NULL for fewer than two values.\<close>

definition sql_STDDEV :: "real list \<Rightarrow> real option" where
  "sql_STDDEV xs =
     (if length xs < 2 then None
      else Some (sqrt (sum_list (map (\<lambda>x. (x - sql_AVG xs)\<^sup>2) xs) / real (length xs - 1))))"

section \<open>Analysis engine: duplicate detection\<close>

record DuplicateGroup =
  dg_Endpoint :: string
  dg_Count :: int
  dg_Cost :: real
  dg_FirstSeen :: instant
  dg_LastSeen :: instant

definition marshal_DuplicateGroup :: "DuplicateGroup \<Rightarrow> json" where
  "marshal_DuplicateGroup g =
     JObj [(''endpoint'', JStr (dg_Endpoint g)),
           (''count'', JNum (of_int (dg_Count g))),
           (''cost'', JNum (dg_Cost g)),
           (''first_seen'', JTime (dg_FirstSeen g)),
           (''last_seen'', JTime (dg_LastSeen g))]"

text \<open>
  \<^verbatim>\<open>MD5(endpoint || method || COALESCE(metadata::text, ''))\<close>; the hash function itself is a
  parameter.
\<close>

definition request_hash :: "(string \<Rightarrow> string) \<Rightarrow> UsageRecord \<Rightarrow> string" where
  "request_hash md5 r =
     md5 (endpoint r @ http_method r @ (case metadata r of None \<Rightarrow> [] | Some m \<Rightarrow> m))"

record DuplicateRow =
  dr_organization_id :: int
  dr_request_hash :: string
  dr_endpoint :: string
  dr_duplicate_count :: int
  dr_total_cost :: real
  dr_first_seen :: instant
  dr_last_seen :: instant

definition duplicate_key :: "(string \<Rightarrow> string) \<Rightarrow> UsageRecord \<Rightarrow> int \<times> string \<times> string" where
  "duplicate_key md5 r = (organization_id r, request_hash md5 r, endpoint r)"

definition duplicate_row :: "(int \<times> string \<times> string) \<times> UsageRecord list \<Rightarrow> DuplicateRow" where
  "duplicate_row kg =
     (case kg of ((org, h, ep), g) \<Rightarrow>
        \<lparr>dr_organization_id = org, dr_request_hash = h, dr_endpoint = ep,
         dr_duplicate_count = int (length g),
         dr_total_cost = sql_SUM (map cost g),
         dr_first_seen = Min (set (map time g)),
         dr_last_seen = Max (set (map time g))\<rparr>)"

text \<open>The query of \<^verbatim>\<open>detectDuplicates\<close>, at store time \<open>now\<close>.\<close>

definition duplicates_query :: "(string \<Rightarrow> string) \<Rightarrow> instant \<Rightarrow> UsageRecord list \<Rightarrow> DuplicateRow list" where
  "duplicates_query md5 now tbl =
     (let request_hashes = filter (\<lambda>r. time r > now - 1 * hour) tbl;
          groups = group_by (duplicate_key md5) request_hashes;
          duplicates = map duplicate_row (filter (\<lambda>kg. length (snd kg) > 1) groups)
      in take 100 (order_by_desc dr_total_cost duplicates))"

text \<open>\<^verbatim>\<open>rows.Scan\<close> and the struct literal of the loop; the cost is scanned into a float64.\<close>

definition scan_DuplicateGroup :: "DuplicateRow \<Rightarrow> DuplicateGroup" where
  "scan_DuplicateGroup r =
     \<lparr>dg_Endpoint = dr_endpoint r, dg_Count = dr_duplicate_count r,
      dg_Cost = float64 (dr_total_cost r),
      dg_FirstSeen = dr_first_seen r, dg_LastSeen = dr_last_seen r\<rparr>"

text \<open>
  \<^verbatim>\<open>detectDuplicates\<close>: \<open>now\<close> is the store's clock when the query runs, \<open>cnow\<close> the cache's
  clock when the SET arrives.  Log lines are not modelled.
\<close>

definition detectDuplicates :: "(string \<Rightarrow> string) \<Rightarrow> store \<Rightarrow> instant \<Rightarrow> instant \<Rightarrow> cache \<Rightarrow> cache" where
  "detectDuplicates md5 db now cnow c =
     (case QueryContext db (duplicates_query md5 now) of
        Inl err \<Rightarrow> c
      | Inr rows \<Rightarrow>
          (let duplicates = map scan_DuplicateGroup rows
           in if length duplicates > 0
              then redis_Set c cnow ''analytics:duplicates''
                     (Json (JArr (map marshal_DuplicateGroup duplicates))) (10 * minute)
              else c))"

section \<open>Analysis engine: cache-opportunity detection\<close>

text \<open>
  The arguments of a \<^verbatim>\<open>fmt.Sprintf\<close> call.  A float64 that is infinite or not a number (the
  result of a division by zero) is \<open>ArgNonFinite\<close>.  The formatting function is a parameter.
\<close>

datatype fmt_arg = ArgInt int | ArgFloat real | ArgNonFinite

record CacheRecommendation =
  cr_Endpoint :: string
  cr_CacheHitRatio :: real
  cr_PotentialSavings :: real
  cr_Recommendation :: string

definition marshal_CacheRecommendation :: "CacheRecommendation \<Rightarrow> json" where
  "marshal_CacheRecommendation r =
     JObj [(''endpoint'', JStr (cr_Endpoint r)),
           (''cache_hit_ratio'', JNum (cr_CacheHitRatio r)),
           (''potential_savings'', JNum (cr_PotentialSavings r)),
           (''recommendation'', JStr (cr_Recommendation r))]"

text \<open>\<^verbatim>\<open>ROUND(x, d)\<close> on numerics: to \<open>d\<close> decimals, ties away from zero.\<close>

definition sql_ROUND :: "real \<Rightarrow> nat \<Rightarrow> real" where
  "sql_ROUND x d = sgn x * of_int \<lfloor>\<bar>x\<bar> * 10 ^ d + 1 / 2\<rfloor> / 10 ^ d"

text \<open>\<^verbatim>\<open>MD5(endpoint || COALESCE(metadata::text, ''))\<close>.\<close>

definition cache_fingerprint :: "(string \<Rightarrow> string) \<Rightarrow> UsageRecord \<Rightarrow> string" where
  "cache_fingerprint md5 r = md5 (endpoint r @ (case metadata r of None \<Rightarrow> [] | Some m \<Rightarrow> m))"

record EndpointStats =
  es_endpoint :: string
  es_total_requests :: int
  es_unique_requests :: int
  es_total_cost :: real
  es_avg_latency :: real

record CacheRow =
  cw_endpoint :: string
  cw_total_requests :: int
  cw_unique_requests :: int
  cw_total_cost :: real
  cw_avg_latency :: real
  cw_cache_hit_ratio :: real

definition endpoint_stats_row :: "(string \<Rightarrow> string) \<Rightarrow> string \<times> UsageRecord list \<Rightarrow> EndpointStats" where
  "endpoint_stats_row md5 kg =
     (case kg of (ep, g) \<Rightarrow>
        \<lparr>es_endpoint = ep,
         es_total_requests = int (length g),
         es_unique_requests = int (length (remdups (map (cache_fingerprint md5) g))),
         es_total_cost = sql_SUM (map cost g),
         es_avg_latency = sql_AVG (map (\<lambda>r. real_of_int (latency_ms r)) g)\<rparr>)"

text \<open>The CTE \<^verbatim>\<open>endpoint_stats\<close>.\<close>

definition endpoint_stats :: "(string \<Rightarrow> string) \<Rightarrow> instant \<Rightarrow> UsageRecord list \<Rightarrow> EndpointStats list" where
  "endpoint_stats md5 now tbl =
     (let selected = filter (\<lambda>r. http_method r = ''GET'' \<and> time r > now - 24 * hour \<and> status_code r < 400) tbl
      in map (endpoint_stats_row md5)
           (filter (\<lambda>kg. length (snd kg) > 10) (group_by endpoint selected)))"

definition cache_row :: "EndpointStats \<Rightarrow> CacheRow" where
  "cache_row s =
     \<lparr>cw_endpoint = es_endpoint s,
      cw_total_requests = es_total_requests s,
      cw_unique_requests = es_unique_requests s,
      cw_total_cost = es_total_cost s,
      cw_avg_latency = es_avg_latency s,
      cw_cache_hit_ratio =
        sql_ROUND (100.0 * real_of_int (es_total_requests s - es_unique_requests s)
                     / real_of_int (es_total_requests s)) 2\<rparr>"

text \<open>The query of \<^verbatim>\<open>analyzeCacheOpportunities\<close>.\<close>

definition cache_query :: "(string \<Rightarrow> string) \<Rightarrow> instant \<Rightarrow> UsageRecord list \<Rightarrow> CacheRow list" where
  "cache_query md5 now tbl =
     take 50 (order_by_desc cw_cache_hit_ratio
       (map cache_row
          (filter (\<lambda>s. es_unique_requests s < es_total_requests s) (endpoint_stats md5 now tbl))))"

text \<open>Go's conversion \<^verbatim>\<open>int(x)\<close> of a float: the fraction is dropped, towards zero.\<close>

definition go_int :: "real \<Rightarrow> int" where
  "go_int x = (if x \<ge> 0 then \<lfloor>x\<rfloor> else \<lceil>x\<rceil>)"

text \<open>
  The body of the loop: the three numeric columns are scanned into float64 variables, and
  \<^verbatim>\<open>totalCost * (cacheRatio / 100.0) * 0.8\<close> is evaluated from the left in float64.
\<close>

definition scan_CacheRecommendation :: "(string \<Rightarrow> fmt_arg list \<Rightarrow> string) \<Rightarrow> CacheRow \<Rightarrow> CacheRecommendation" where
  "scan_CacheRecommendation sprintf r =
     (let totalCost = float64 (cw_total_cost r); avgLatency = float64 (cw_avg_latency r);
          cacheRatio = float64 (cw_cache_hit_ratio r);
          potentialSavings = fmul (fmul totalCost (fdiv cacheRatio 100.0)) (float64 0.8);
          recommendation = sprintf ''Cache this endpoint with TTL of %d seconds. Could save %.2f%% of requests.''
                             [ArgInt (go_int (fdiv avgLatency 1000) * 10), ArgFloat cacheRatio]
      in \<lparr>cr_Endpoint = cw_endpoint r, cr_CacheHitRatio = cacheRatio,
          cr_PotentialSavings = potentialSavings, cr_Recommendation = recommendation\<rparr>)"

definition analyzeCacheOpportunities ::
  "(string \<Rightarrow> string) \<Rightarrow> (string \<Rightarrow> fmt_arg list \<Rightarrow> string) \<Rightarrow> store \<Rightarrow> instant \<Rightarrow> instant \<Rightarrow> cache \<Rightarrow> cache" where
  "analyzeCacheOpportunities md5 sprintf db now cnow c =
     (case QueryContext db (cache_query md5 now) of
        Inl err \<Rightarrow> c
      | Inr rows \<Rightarrow>
          (let recommendations = map (scan_CacheRecommendation sprintf) rows
           in if length recommendations > 0
              then redis_Set c cnow ''analytics:cache_recommendations''
                     (Json (JArr (map marshal_CacheRecommendation recommendations))) (10 * minute)
              else c))"

section \<open>Analysis engine: anomaly detection\<close>

record Anomaly =
  an_Type :: string
  an_Severity :: string
  an_Description :: string
  an_DetectedAt :: instant

definition marshal_Anomaly :: "Anomaly \<Rightarrow> json" where
  "marshal_Anomaly a =
     JObj [(''type'', JStr (an_Type a)),
           (''severity'', JStr (an_Severity a)),
           (''description'', JStr (an_Description a)),
           (''detected_at'', JTime (an_DetectedAt a))]"

record HourlyCost =
  hc_hour :: instant
  hc_organization_id :: int
  hc_hourly_cost :: real
  hc_request_count :: int

record AvgCost =
  ac_organization_id :: int
  ac_avg_cost :: real
  ac_stddev_cost :: "real option"

record AnomalyRow =
  ar_organization_id :: int
  ar_hour :: instant
  ar_hourly_cost :: real
  ar_avg_cost :: real
  ar_request_count :: int

definition hourly_cost_row :: "(instant \<times> int) \<times> UsageRecord list \<Rightarrow> HourlyCost" where
  "hourly_cost_row kg =
     (case kg of ((h, org), g) \<Rightarrow>
        \<lparr>hc_hour = h, hc_organization_id = org,
         hc_hourly_cost = sql_SUM (map cost g), hc_request_count = int (length g)\<rparr>)"

text \<open>The CTE \<^verbatim>\<open>hourly_costs\<close>.\<close>

definition hourly_costs :: "instant \<Rightarrow> UsageRecord list \<Rightarrow> HourlyCost list" where
  "hourly_costs now tbl =
     map hourly_cost_row
       (group_by (\<lambda>r. (time_bucket hour (time r), organization_id r))
          (filter (\<lambda>r. time r > now - 24 * hour) tbl))"

definition avg_cost_row :: "int \<times> HourlyCost list \<Rightarrow> AvgCost" where
  "avg_cost_row kg =
     (case kg of (org, g) \<Rightarrow>
        \<lparr>ac_organization_id = org,
         ac_avg_cost = sql_AVG (map hc_hourly_cost g),
         ac_stddev_cost = sql_STDDEV (map hc_hourly_cost g)\<rparr>)"

text \<open>The CTE \<^verbatim>\<open>avg_costs\<close>.\<close>

definition avg_costs :: "HourlyCost list \<Rightarrow> AvgCost list" where
  "avg_costs hcs = map avg_cost_row (group_by hc_organization_id hcs)"

text \<open>
  \<^verbatim>\<open>hc.hourly_cost > (ac.avg_cost + 3 * ac.stddev_cost)\<close>: with a NULL deviation the
  comparison is NULL, and the WHERE clause drops the row.
\<close>

definition exceeds_threshold :: "HourlyCost \<Rightarrow> AvgCost \<Rightarrow> bool" where
  "exceeds_threshold hc ac =
     (case ac_stddev_cost ac of
        None \<Rightarrow> False
      | Some sd \<Rightarrow> hc_hourly_cost hc > ac_avg_cost ac + 3 * sd)"

definition anomaly_row :: "HourlyCost \<Rightarrow> AvgCost \<Rightarrow> AnomalyRow" where
  "anomaly_row hc ac =
     \<lparr>ar_organization_id = hc_organization_id hc, ar_hour = hc_hour hc,
      ar_hourly_cost = hc_hourly_cost hc, ar_avg_cost = ac_avg_cost ac,
      ar_request_count = hc_request_count hc\<rparr>"

text \<open>The query of \<^verbatim>\<open>detectAnomalies\<close>.\<close>

definition anomalies_query :: "instant \<Rightarrow> UsageRecord list \<Rightarrow> AnomalyRow list" where
  "anomalies_query now tbl =
     (let hcs = hourly_costs now tbl; acs = avg_costs hcs
      in order_by_desc ar_hour
           (concat (map (\<lambda>hc. map (anomaly_row hc)
                                 (filter (\<lambda>ac. hc_organization_id hc = ac_organization_id ac
                                                \<and> exceeds_threshold hc ac) acs)) hcs)))"

definition scan_Anomaly :: "(string \<Rightarrow> fmt_arg list \<Rightarrow> string) \<Rightarrow> AnomalyRow \<Rightarrow> Anomaly" where
  "scan_Anomaly sprintf r =
     (let hourlyCost = float64 (ar_hourly_cost r); avgCost = float64 (ar_avg_cost r);
          requestCount = ar_request_count r;
          spike = (if avgCost = 0 then ArgNonFinite
                   else ArgFloat (fmul (fdiv (fsub hourlyCost avgCost) avgCost) 100));
          description = sprintf ''Cost spike: $%.2f (%.0f%% above average). %d requests/hour.''
                          [ArgFloat hourlyCost, spike, ArgInt requestCount]
      in \<lparr>an_Type = ''cost_spike'', an_Severity = ''high'',
          an_Description = description, an_DetectedAt = ar_hour r\<rparr>)"

definition detectAnomalies ::
  "(string \<Rightarrow> fmt_arg list \<Rightarrow> string) \<Rightarrow> store \<Rightarrow> instant \<Rightarrow> instant \<Rightarrow> cache \<Rightarrow> cache" where
  "detectAnomalies sprintf db now cnow c =
     (case QueryContext db (anomalies_query now) of
        Inl err \<Rightarrow> c
      | Inr rows \<Rightarrow>
          (let anomalies = map (scan_Anomaly sprintf) rows
           in if length anomalies > 0
              then redis_Set c cnow ''analytics:anomalies''
                     (Json (JArr (map marshal_Anomaly anomalies))) (10 * minute)
              else c))"

section \<open>Cost tracker: the cost rollup\<close>

record CostBreakdown =
  cb_Label :: string
  cb_Cost :: real
  cb_RequestCount :: int
  cb_AvgLatency :: real
  cb_ErrorCount :: int

definition marshal_CostBreakdown :: "CostBreakdown \<Rightarrow> json" where
  "marshal_CostBreakdown b =
     JObj [(''label'', JStr (cb_Label b)),
           (''cost'', JNum (cb_Cost b)),
           (''request_count'', JNum (of_int (cb_RequestCount b))),
           (''avg_latency'', JNum (cb_AvgLatency b)),
           (''error_count'', JNum (of_int (cb_ErrorCount b)))]"

record ProviderRow =
  pr_provider :: string
  pr_request_count :: int
  pr_total_cost :: real
  pr_avg_latency :: real
  pr_error_count :: int

definition provider_row :: "string \<times> UsageRecord list \<Rightarrow> ProviderRow" where
  "provider_row kg =
     (case kg of (p, g) \<Rightarrow>
        \<lparr>pr_provider = p,
         pr_request_count = int (length g),
         pr_total_cost = sql_SUM (map cost g),
         pr_avg_latency = sql_AVG (map (\<lambda>r. real_of_int (latency_ms r)) g),
         pr_error_count = int (length (filter (\<lambda>r. status_code r \<ge> 400) g))\<rparr>)"

text \<open>The query of \<^verbatim>\<open>calculateRealTimeCosts\<close>.\<close>

definition costs_query :: "instant \<Rightarrow> UsageRecord list \<Rightarrow> ProviderRow list" where
  "costs_query now tbl =
     order_by_desc pr_total_cost
       (map provider_row (group_by provider (filter (\<lambda>r. time r > now - 24 * hour) tbl)))"

text \<open>\<^verbatim>\<open>rows.Scan\<close> into the fields of \<open>item\<close>: cost and mean latency become float64.\<close>

definition scan_CostBreakdown :: "ProviderRow \<Rightarrow> CostBreakdown" where
  "scan_CostBreakdown r =
     \<lparr>cb_Label = pr_provider r,
      cb_Cost = float64 (pr_total_cost r),
      cb_RequestCount = pr_request_count r,
      cb_AvgLatency = float64 (pr_avg_latency r),
      cb_ErrorCount = pr_error_count r\<rparr>"

text \<open>
  The loop over the rows: \<open>breakdown\<close> and \<open>totalCost\<close> are its two accumulators, and
  \<^verbatim>\<open>totalCost += item.Cost\<close> is a float64 addition.
\<close>

fun rollup_loop :: "ProviderRow list \<Rightarrow> CostBreakdown list \<Rightarrow> real \<Rightarrow> CostBreakdown list \<times> real" where
  "rollup_loop [] breakdown totalCost = (breakdown, totalCost)"
| "rollup_loop (row # rows) breakdown totalCost =
     (let item = scan_CostBreakdown row
      in rollup_loop rows (breakdown @ [item]) (fadd totalCost (cb_Cost item)))"

definition rollup_document :: "CostBreakdown list \<Rightarrow> real \<Rightarrow> instant \<Rightarrow> json" where
  "rollup_document breakdown totalCost updated =
     JObj [(''breakdown'', JArr (map marshal_CostBreakdown breakdown)),
           (''total_cost'', JNum totalCost),
           (''updated_at'', JTime updated)]"

text \<open>
  \<^verbatim>\<open>calculateRealTimeCosts\<close>: \<open>now\<close> is the store's clock, \<open>tnow\<close> the result of
  \<^verbatim>\<open>time.Now()\<close>, \<open>cnow\<close> the cache's clock when the SET arrives.
\<close>

definition calculateRealTimeCosts :: "store \<Rightarrow> instant \<Rightarrow> instant \<Rightarrow> instant \<Rightarrow> cache \<Rightarrow> cache" where
  "calculateRealTimeCosts db now tnow cnow c =
     (case QueryContext db (costs_query now) of
        Inl err \<Rightarrow> c
      | Inr rows \<Rightarrow>
          (case rollup_loop rows [] 0 of
             (breakdown, totalCost) \<Rightarrow>
               redis_Set c cnow ''costs:24h:by_provider''
                 (Json (rollup_document breakdown totalCost tnow)) (5 * minute)))"

text \<open>
  One iteration of \<^verbatim>\<open>continuousAnalysis\<close>: the three jobs in turn.  Each job meets the store
  and the clocks as they are when it runs: \<open>(db, now, cnow)\<close>.
\<close>

definition continuousAnalysis_iteration ::
  "(string \<Rightarrow> string) \<Rightarrow> (string \<Rightarrow> fmt_arg list \<Rightarrow> string) \<Rightarrow>
   store \<times> instant \<times> instant \<Rightarrow> store \<times> instant \<times> instant \<Rightarrow> store \<times> instant \<times> instant \<Rightarrow>
   cache \<Rightarrow> cache" where
  "continuousAnalysis_iteration md5 sprintf e1 e2 e3 c =
     (case e1 of (db1, now1, cnow1) \<Rightarrow>
      case e2 of (db2, now2, cnow2) \<Rightarrow>
      case e3 of (db3, now3, cnow3) \<Rightarrow>
        detectAnomalies sprintf db3 now3 cnow3
          (analyzeCacheOpportunities md5 sprintf db2 now2 cnow2
             (detectDuplicates md5 db1 now1 cnow1 c)))"

section \<open>Realtime gateway\<close>

text \<open>\<^verbatim>\<open>json.Unmarshal\<close> into an \<^verbatim>\<open>interface{}\<close>.\<close>

definition Unmarshal :: "bytes \<Rightarrow> json option" where
  "Unmarshal b = (case b of Json j \<Rightarrow> Some j | Malformed s \<Rightarrow> None)"

text \<open>
  \<^verbatim>\<open>json.Unmarshal\<close> into a \<^verbatim>\<open>map[string]interface{}\<close>: only an object (or \<^verbatim>\<open>null\<close>, which
  leaves the map nil) is accepted.
\<close>

definition Unmarshal_map :: "bytes \<Rightarrow> json option" where
  "Unmarshal_map b =
     (case b of
        Json (JObj kvs) \<Rightarrow> Some (JObj kvs)
      | Json JNull \<Rightarrow> Some JNull
      | _ \<Rightarrow> None)"

definition getRedisData :: "cache \<Rightarrow> instant \<Rightarrow> string \<Rightarrow> json" where
  "getRedisData c cnow key =
     (case redis_Get c cnow key of
        Inl err \<Rightarrow>
          (if key = ''costs:24h:by_provider''
           then JObj [(''breakdown'', JArr []), (''total_cost'', JNum 0.0)]
           else JArr [])
      | Inr data \<Rightarrow>
          (case Unmarshal data of
             None \<Rightarrow> JArr []
           | Some result \<Rightarrow> result))"

text \<open>\<open>tnow\<close> is the result of \<^verbatim>\<open>time.Now()\<close>; \<^verbatim>\<open>Unix()\<close> gives whole seconds.\<close>

definition getInitialData :: "cache \<Rightarrow> instant \<Rightarrow> instant \<Rightarrow> json" where
  "getInitialData c cnow tnow =
     JObj [(''type'', JStr ''initial_data''),
           (''data'', getRedisData c cnow ''costs:24h:by_provider''),
           (''timestamp'', JNum (of_int (tnow div second)))]"

datatype phase = Connecting | Upgraded | Streaming | Closed

text \<open>What the \<^verbatim>\<open>select\<close> of the streaming loop receives: one case per iteration.\<close>

datatype select_case = Done | Message bytes | Tick

text \<open>
  The streaming loop of \<^verbatim>\<open>handleWebSocket\<close>, run over the cases its \<^verbatim>\<open>select\<close> receives.
  \<open>wr n\<close> tells whether the \<open>n\<close>-th \<^verbatim>\<open>conn.WriteJSON\<close> of the connection succeeds; the trace
  lists every \<^verbatim>\<open>WriteJSON\<close> call with its outcome, oldest first.  When the cases run out
  the handler is blocked in its \<^verbatim>\<open>select\<close>, still streaming.
\<close>

fun stream_loop :: "(nat \<Rightarrow> bool) \<Rightarrow> select_case list \<Rightarrow> (json \<times> bool) list \<Rightarrow> (json \<times> bool) list \<times> phase" where
  "stream_loop wr [] trace = (trace, Streaming)"
| "stream_loop wr (Done # cases) trace = (trace, Closed)"
| "stream_loop wr (Message payload # cases) trace =
     (case Unmarshal_map payload of
        None \<Rightarrow> stream_loop wr cases trace
      | Some event \<Rightarrow>
          if wr (length trace) then stream_loop wr cases (trace @ [(event, True)])
          else (trace @ [(event, False)], Closed))"
| "stream_loop wr (Tick # cases) trace =
     (if wr (length trace)
      then stream_loop wr cases (trace @ [(JObj [(''type'', JStr ''ping'')], True)])
      else (trace @ [(JObj [(''type'', JStr ''ping'')], False)], Closed))"

text \<open>
  \<^verbatim>\<open>handleWebSocket\<close>: \<open>upgraded\<close> tells whether \<^verbatim>\<open>upgrader.Upgrade\<close> succeeded.  The result is
  the trace of \<^verbatim>\<open>WriteJSON\<close> calls and the phase the connection is left in.
\<close>

definition handleWebSocket ::
  "bool \<Rightarrow> cache \<Rightarrow> instant \<Rightarrow> instant \<Rightarrow> (nat \<Rightarrow> bool) \<Rightarrow> select_case list \<Rightarrow> (json \<times> bool) list \<times> phase" where
  "handleWebSocket upgraded c cnow tnow wr cases =
     (if \<not> upgraded then ([], Closed)
      else (let summary = getInitialData c cnow tnow
            in if \<not> wr 0 then ([(summary, False)], Closed)
               else stream_loop wr cases [(summary, True)]))"

section \<open>The specification's vocabulary\<close>

text \<open>
  The definitions of this section follow the words of the specification, not the code;
  the theorems compare them with the queries above.
\<close>

text \<open>The records of the trailing window of width \<open>w\<close> at time \<open>now\<close>.\<close>

definition trailing_window :: "int \<Rightarrow> instant \<Rightarrow> UsageRecord list \<Rightarrow> UsageRecord list" where
  "trailing_window w now tbl = filter (\<lambda>r. now - w < time r) tbl"

text \<open>The serialized metadata of a record: its text, empty when the record has none.\<close>

definition serialized_metadata :: "UsageRecord \<Rightarrow> string" where
  "serialized_metadata r = (case metadata r of None \<Rightarrow> [] | Some m \<Rightarrow> m)"

text \<open>The fingerprint of the glossary: a hash combining endpoint, method and serialized metadata.\<close>

definition fingerprint :: "(string \<Rightarrow> string) \<Rightarrow> UsageRecord \<Rightarrow> string" where
  "fingerprint md5 r = md5 (endpoint r @ http_method r @ serialized_metadata r)"

text \<open>Duplicate detection: the member records of the group keyed by (organization, endpoint, fingerprint).\<close>

definition duplicate_members ::
  "(string \<Rightarrow> string) \<Rightarrow> instant \<Rightarrow> UsageRecord list \<Rightarrow> int \<Rightarrow> string \<Rightarrow> string \<Rightarrow> UsageRecord list" where
  "duplicate_members md5 now tbl org ep fp =
     filter (\<lambda>r. organization_id r = org \<and> endpoint r = ep \<and> fingerprint md5 r = fp)
       (trailing_window hour now tbl)"

text \<open>
  The group the artifact shows for a key with these members: their number, the double nearest
  to their summed cost, their first and last timestamps.
\<close>

definition duplicate_group ::
  "(string \<Rightarrow> string) \<Rightarrow> instant \<Rightarrow> UsageRecord list \<Rightarrow> int \<times> string \<times> string \<Rightarrow> DuplicateGroup" where
  "duplicate_group md5 now tbl k =
     (case k of (org, ep, fp) \<Rightarrow>
        \<lparr>dg_Endpoint = ep,
         dg_Count = int (length (duplicate_members md5 now tbl org ep fp)),
         dg_Cost = float64 (sum_list (map cost (duplicate_members md5 now tbl org ep fp))),
         dg_FirstSeen = Min (set (map time (duplicate_members md5 now tbl org ep fp))),
         dg_LastSeen = Max (set (map time (duplicate_members md5 now tbl org ep fp)))\<rparr>)"

text \<open>Cache opportunities: the GET calls with status below 400 of an endpoint, in the last 24 hours.\<close>

definition cacheable_calls :: "instant \<Rightarrow> UsageRecord list \<Rightarrow> string \<Rightarrow> UsageRecord list" where
  "cacheable_calls now tbl ep =
     filter (\<lambda>r. endpoint r = ep \<and> http_method r = ''GET'' \<and> status_code r < 400)
       (trailing_window (24 * hour) now tbl)"

definition total_calls :: "instant \<Rightarrow> UsageRecord list \<Rightarrow> string \<Rightarrow> nat" where
  "total_calls now tbl ep = length (cacheable_calls now tbl ep)"

text \<open>
  The content fingerprint of a read-only call: a hash combining endpoint and serialized
  metadata (the method of every call counted here is GET).
\<close>

definition content_fingerprint :: "(string \<Rightarrow> string) \<Rightarrow> UsageRecord \<Rightarrow> string" where
  "content_fingerprint md5 r = md5 (endpoint r @ serialized_metadata r)"

definition distinct_calls :: "(string \<Rightarrow> string) \<Rightarrow> instant \<Rightarrow> UsageRecord list \<Rightarrow> string \<Rightarrow> nat" where
  "distinct_calls md5 now tbl ep = card (content_fingerprint md5 ` set (cacheable_calls now tbl ep))"

text \<open>The total cost of the calls of an endpoint.\<close>

definition endpoint_cost :: "instant \<Rightarrow> UsageRecord list \<Rightarrow> string \<Rightarrow> real" where
  "endpoint_cost now tbl ep = sum_list (map cost (cacheable_calls now tbl ep))"

definition recommendable :: "(string \<Rightarrow> string) \<Rightarrow> instant \<Rightarrow> UsageRecord list \<Rightarrow> string \<Rightarrow> bool" where
  "recommendable md5 now tbl ep =
     (total_calls now tbl ep > 10 \<and> distinct_calls md5 now tbl ep < total_calls now tbl ep)"

definition hit_ratio :: "(string \<Rightarrow> string) \<Rightarrow> instant \<Rightarrow> UsageRecord list \<Rightarrow> string \<Rightarrow> real" where
  "hit_ratio md5 now tbl ep =
     sql_ROUND (100 * (real (total_calls now tbl ep) - real (distinct_calls md5 now tbl ep))
                  / real (total_calls now tbl ep)) 2"

text \<open>Cost rollup: the records of a provider in the last 24 hours.\<close>

definition provider_records :: "instant \<Rightarrow> UsageRecord list \<Rightarrow> string \<Rightarrow> UsageRecord list" where
  "provider_records now tbl p = filter (\<lambda>r. provider r = p) (trailing_window (24 * hour) now tbl)"

text \<open>Anomalies: the (organization, hour) buckets of the last 24 hours and their cost.\<close>

definition bucket_records :: "instant \<Rightarrow> UsageRecord list \<Rightarrow> int \<Rightarrow> instant \<Rightarrow> UsageRecord list" where
  "bucket_records now tbl org h =
     filter (\<lambda>r. organization_id r = org \<and> time_bucket hour (time r) = h)
       (trailing_window (24 * hour) now tbl)"

definition bucket_cost :: "instant \<Rightarrow> UsageRecord list \<Rightarrow> int \<Rightarrow> instant \<Rightarrow> real" where
  "bucket_cost now tbl org h = sum_list (map cost (bucket_records now tbl org h))"

text \<open>The hours of an organization that hold a record, each once.\<close>

definition org_hours :: "instant \<Rightarrow> UsageRecord list \<Rightarrow> int \<Rightarrow> instant list" where
  "org_hours now tbl org =
     remdups (map (\<lambda>r. time_bucket hour (time r))
                (filter (\<lambda>r. organization_id r = org) (trailing_window (24 * hour) now tbl)))"

text \<open>The organization's distribution of hourly cost over the window.\<close>

definition org_hourly_costs :: "instant \<Rightarrow> UsageRecord list \<Rightarrow> int \<Rightarrow> real list" where
  "org_hourly_costs now tbl org = map (bucket_cost now tbl org) (org_hours now tbl org)"

text \<open>
  A bucket exceeds the organization's mean plus three standard deviations; a standard
  deviation that is undefined flags nothing.
\<close>

definition exceeds_three_sigma :: "instant \<Rightarrow> UsageRecord list \<Rightarrow> int \<Rightarrow> instant \<Rightarrow> bool" where
  "exceeds_three_sigma now tbl org h =
     (h \<in> set (org_hours now tbl org) \<and>
      (case sql_STDDEV (org_hourly_costs now tbl org) of
         None \<Rightarrow> False
       | Some sd \<Rightarrow> bucket_cost now tbl org h > sql_AVG (org_hourly_costs now tbl org) + 3 * sd))"

text \<open>
  The buckets of the window, each once, with the row of \<open>hourly_costs\<close> and the row of
  \<open>avg_costs\<close> that the specification's quantities prescribe for them.
\<close>

definition window_buckets :: "instant \<Rightarrow> UsageRecord list \<Rightarrow> (instant \<times> int) list" where
  "window_buckets now tbl =
     remdups (map (\<lambda>r. (time_bucket hour (time r), organization_id r))
                (trailing_window (24 * hour) now tbl))"

definition bucket_row :: "instant \<Rightarrow> UsageRecord list \<Rightarrow> instant \<times> int \<Rightarrow> HourlyCost" where
  "bucket_row now tbl k =
     \<lparr>hc_hour = fst k, hc_organization_id = snd k,
      hc_hourly_cost = bucket_cost now tbl (snd k) (fst k),
      hc_request_count = int (length (bucket_records now tbl (snd k) (fst k)))\<rparr>"

definition org_stats :: "instant \<Rightarrow> UsageRecord list \<Rightarrow> int \<Rightarrow> AvgCost" where
  "org_stats now tbl org =
     \<lparr>ac_organization_id = org,
      ac_avg_cost = sql_AVG (org_hourly_costs now tbl org),
      ac_stddev_cost = sql_STDDEV (org_hourly_costs now tbl org)\<rparr>"

section \<open>Example data\<close>

definition demo_record :: "instant \<Rightarrow> real \<Rightarrow> UsageRecord" where
  "demo_record t x =
     \<lparr>time = t, organization_id = 1, request_id = ''req'', provider = ''OpenAI'',
      endpoint = ''/v1/chat'', http_method = ''GET'', status_code = 200, latency_ms = 120,
      cost = x, metadata = None\<rparr>"

text \<open>
  Eleven hours of history of one organization: ten hours of cost 1, then one hour of cost
  12 made of two identical calls.
\<close>

definition demo_table :: "UsageRecord list" where
  "demo_table =
     [demo_record (0 * hour) 1, demo_record (1 * hour) 1, demo_record (2 * hour) 1,
      demo_record (3 * hour) 1, demo_record (4 * hour) 1, demo_record (5 * hour) 1,
      demo_record (6 * hour) 1, demo_record (7 * hour) 1, demo_record (8 * hour) 1,
      demo_record (9 * hour) 1,
      demo_record (10 * hour + 5 * minute) 6, demo_record (10 * hour + 35 * minute) 6]"

text \<open>Ten hours of history, every hour of cost 1.\<close>

definition steady_table :: "UsageRecord list" where
  "steady_table =
     [demo_record (0 * hour) 1, demo_record (1 * hour) 1, demo_record (2 * hour) 1,
      demo_record (3 * hour) 1, demo_record (4 * hour) 1, demo_record (5 * hour) 1,
      demo_record (6 * hour) 1, demo_record (7 * hour) 1, demo_record (8 * hour) 1,
      demo_record (9 * hour) 1]"

definition demo_now :: instant where
  "demo_now = 11 * hour"

text \<open>The text of a metadata object with one entry, as JSONB prints it: \<^verbatim>\<open>{"id": "v"}\<close>.\<close>

definition request_meta :: "string \<Rightarrow> string option" where
  "request_meta v =
     Some (''{'' @ [CHR 0x22] @ ''id'' @ [CHR 0x22] @ '': '' @ [CHR 0x22] @ v @ [CHR 0x22] @ ''}'')"

definition call :: "instant \<Rightarrow> string \<Rightarrow> string \<Rightarrow> real \<Rightarrow> string \<Rightarrow> UsageRecord" where
  "call t p m x v =
     \<lparr>time = t, organization_id = 1, request_id = ''req'', provider = p,
      endpoint = ''/v1/chat'', http_method = m, status_code = 200, latency_ms = 120,
      cost = x, metadata = request_meta v\<rparr>"

text \<open>Twelve GET calls of cost 0.5 in the last hour, two for each of six requests.\<close>

definition varied_table :: "UsageRecord list" where
  "varied_table =
     [call (10 * hour + 1 * minute) ''OpenAI'' ''GET'' 0.5 ''1'',
      call (10 * hour + 2 * minute) ''OpenAI'' ''GET'' 0.5 ''2'',
      call (10 * hour + 3 * minute) ''OpenAI'' ''GET'' 0.5 ''3'',
      call (10 * hour + 4 * minute) ''OpenAI'' ''GET'' 0.5 ''4'',
      call (10 * hour + 5 * minute) ''OpenAI'' ''GET'' 0.5 ''5'',
      call (10 * hour + 6 * minute) ''OpenAI'' ''GET'' 0.5 ''6'',
      call (10 * hour + 7 * minute) ''OpenAI'' ''GET'' 0.5 ''1'',
      call (10 * hour + 8 * minute) ''OpenAI'' ''GET'' 0.5 ''2'',
      call (10 * hour + 9 * minute) ''OpenAI'' ''GET'' 0.5 ''3'',
      call (10 * hour + 10 * minute) ''OpenAI'' ''GET'' 0.5 ''4'',
      call (10 * hour + 11 * minute) ''OpenAI'' ''GET'' 0.5 ''5'',
      call (10 * hour + 12 * minute) ''OpenAI'' ''GET'' 0.5 ''6'']"

text \<open>Eleven GET calls, each for a request of its own.\<close>

definition eleven_table :: "UsageRecord list" where
  "eleven_table =
     [call (10 * hour + 1 * minute) ''OpenAI'' ''GET'' 0.5 ''1'',
      call (10 * hour + 2 * minute) ''OpenAI'' ''GET'' 0.5 ''2'',
      call (10 * hour + 3 * minute) ''OpenAI'' ''GET'' 0.5 ''3'',
      call (10 * hour + 4 * minute) ''OpenAI'' ''GET'' 0.5 ''4'',
      call (10 * hour + 5 * minute) ''OpenAI'' ''GET'' 0.5 ''5'',
      call (10 * hour + 6 * minute) ''OpenAI'' ''GET'' 0.5 ''6'',
      call (10 * hour + 7 * minute) ''OpenAI'' ''GET'' 0.5 ''7'',
      call (10 * hour + 8 * minute) ''OpenAI'' ''GET'' 0.5 ''8'',
      call (10 * hour + 9 * minute) ''OpenAI'' ''GET'' 0.5 ''9'',
      call (10 * hour + 10 * minute) ''OpenAI'' ''GET'' 0.5 ''10'',
      call (10 * hour + 11 * minute) ''OpenAI'' ''GET'' 0.5 ''11'']"

text \<open>
  Four calls of one endpoint in the last hour: two identical ones, one with other metadata,
  one with another method.
\<close>

definition mixed_table :: "UsageRecord list" where
  "mixed_table =
     [call (10 * hour + 5 * minute) ''OpenAI'' ''GET'' 6 ''1'',
      call (10 * hour + 15 * minute) ''OpenAI'' ''GET'' 1 ''2'',
      call (10 * hour + 25 * minute) ''OpenAI'' ''POST'' 1 ''1'',
      call (10 * hour + 35 * minute) ''OpenAI'' ''GET'' 6 ''1'']"

text \<open>Two providers, of cost 0.1 and 0.2.\<close>

definition float_table :: "UsageRecord list" where
  "float_table =
     [call (10 * hour + 5 * minute) ''SendGrid'' ''POST'' 0.1 ''1'',
      call (10 * hour + 15 * minute) ''OpenAI'' ''POST'' 0.2 ''2'']"

text \<open>A single call: no duplicates, no cache opportunity, no anomaly.\<close>

definition quiet_table :: "UsageRecord list" where
  "quiet_table = [demo_record (10 * hour + 5 * minute) 6]"

definition empty_cache :: cache where
  "empty_cache = \<lparr>reachable = True, entries = Map.empty, published = []\<rparr>"

text \<open>A cache that holds an earlier artifact under each key of the analysis engine.\<close>

definition stale_cache :: cache where
  "stale_cache =
     \<lparr>reachable = True,
      entries = [''analytics:duplicates'' \<mapsto> (Json (JArr [JStr ''old'']), 12 * hour),
                 ''analytics:cache_recommendations'' \<mapsto> (Json (JArr [JStr ''old'']), 12 * hour),
                 ''analytics:anomalies'' \<mapsto> (Json (JArr [JStr ''old'']), 12 * hour),
                 ''costs:24h:by_provider'' \<mapsto> (Json (JObj [(''total_cost'', JNum 7)]), 12 * hour)],
      published = []\<rparr>"

section \<open>Auxiliary facts\<close>

lemmas clock_defs = hour_def minute_def second_def

subsection \<open>Rounding to float64\<close>

lemma round_half_even_of_int [simp]: "round_half_even (of_int n) = n"
  by (simp add: round_half_even_def)

lemma round_half_even_bounds: "\<lfloor>y\<rfloor> \<le> round_half_even y" "round_half_even y \<le> \<lfloor>y\<rfloor> + 1"
  by (simp_all add: round_half_even_def)

lemma round_half_even_mono: "y \<le> z \<Longrightarrow> round_half_even y \<le> round_half_even z"
proof -
  assume le: "y \<le> z"
  then have f: "\<lfloor>y\<rfloor> \<le> \<lfloor>z\<rfloor>" by (rule floor_mono)
  show ?thesis
  proof (cases "\<lfloor>y\<rfloor> = \<lfloor>z\<rfloor>")
    case True
    with le show ?thesis
      by (auto simp: round_half_even_def)
  next
    case False
    with f have "\<lfloor>y\<rfloor> + 1 \<le> \<lfloor>z\<rfloor>" by simp
    with round_half_even_bounds(2) [of y] round_half_even_bounds(1) [of z]
    show ?thesis by linarith
  qed
qed

lemma round_half_even_error: "\<bar>of_int (round_half_even y) - y\<bar> \<le> 1 / 2"
  unfolding round_half_even_def by (auto; linarith)

lemma pow2_le_of_int: "2 ^ n \<le> m \<Longrightarrow> (2::real) ^ n \<le> of_int m"
  by (metis of_int_le_iff of_int_numeral of_int_power)

lemma of_int_le_pow2: "m \<le> 2 ^ n \<Longrightarrow> of_int m \<le> (2::real) ^ n"
  by (metis of_int_le_iff of_int_numeral of_int_power)

lemma binade_bounds:
  assumes "0 < x"
  shows "2 powi binade x \<le> x" and "x < 2 powi (binade x + 1)"
proof -
  have "2 powi binade x \<le> x \<and> x < 2 powi (binade x + 1)"
  proof (cases "1 \<le> x")
    case True
    define n where "n = \<lfloor>x\<rfloor>"
    from True have n: "0 < n" by (simp add: n_def)
    then have b1: "1 \<le> bitlen n" by (simp add: bitlen_alt_def)
    from bitlen_bounds [OF n] have lo: "2 ^ nat (bitlen n - 1) \<le> n" and hi: "n < 2 ^ nat (bitlen n)"
      by simp_all
    have "(2::real) ^ nat (bitlen n - 1) \<le> real_of_int n"
      using lo by (rule pow2_le_of_int)
    also have "\<dots> \<le> x" by (simp add: n_def)
    finally have 1: "2 powi (bitlen n - 1) \<le> x"
      using b1 by (simp add: power_int_def)
    from hi have "n + 1 \<le> 2 ^ nat (bitlen n)" by simp
    then have "real_of_int (n + 1) \<le> 2 ^ nat (bitlen n)"
      by (rule of_int_le_pow2)
    moreover have "x < real_of_int (n + 1)" unfolding n_def by linarith
    ultimately have "x < 2 ^ nat (bitlen n)" by linarith
    then have 2: "x < 2 powi (bitlen n - 1 + 1)"
      using b1 by (simp add: power_int_def)
    from True 1 2 show ?thesis
      by (simp add: binade_def n_def)
  next
    case False
    define y where "y = 1 / x"
    define m where "m = \<lceil>y\<rceil> - 1"
    from False assms have y1: "1 < y" by (simp add: y_def)
    then have m: "0 < m" unfolding m_def by linarith
    then have b1: "1 \<le> bitlen m" by (simp add: bitlen_alt_def)
    from bitlen_bounds [OF m] have lo: "2 ^ nat (bitlen m - 1) \<le> m" and hi: "m < 2 ^ nat (bitlen m)"
      by simp_all
    have my: "real_of_int m < y" "y \<le> real_of_int (m + 1)"
      unfolding m_def by linarith+
    from hi have "m + 1 \<le> 2 ^ nat (bitlen m)" by simp
    then have "real_of_int (m + 1) \<le> 2 ^ nat (bitlen m)"
      by (rule of_int_le_pow2)
    with my(2) have "y \<le> 2 ^ nat (bitlen m)" by linarith
    then have "1 / 2 ^ nat (bitlen m) \<le> 1 / y"
      using y1 by (intro divide_left_mono) simp_all
    then have 1: "2 powi (- bitlen m) \<le> x"
      using b1 assms by (simp add: power_int_def y_def inverse_eq_divide power_one_over)
    have "(2::real) ^ nat (bitlen m - 1) \<le> real_of_int m"
      using lo by (rule pow2_le_of_int)
    with my(1) have "2 ^ nat (bitlen m - 1) < y" by linarith
    then have "1 / y < 1 / 2 ^ nat (bitlen m - 1)"
      using y1 by (intro divide_strict_left_mono) simp_all
    moreover have "2 powi (- bitlen m + 1) = (1::real) / 2 ^ nat (bitlen m - 1)"
    proof (cases "bitlen m = 1")
      case True
      then show ?thesis by simp
    next
      case False
      with b1 have "\<not> 0 \<le> - bitlen m + 1" "nat (- (- bitlen m + 1)) = nat (bitlen m - 1)" by simp_all
      then show ?thesis
        by (simp add: power_int_def inverse_eq_divide power_one_over)
    qed
    ultimately have 2: "x < 2 powi (- bitlen m + 1)"
      using assms by (simp add: y_def)
    from False 1 2 show ?thesis
      by (simp add: binade_def y_def m_def)
  qed
  then show "2 powi binade x \<le> x" and "x < 2 powi (binade x + 1)" by simp_all
qed

lemma binade_unique:
  assumes "0 < x" "2 powi k \<le> x" "x < 2 powi (k + 1)"
  shows "binade x = k"
proof (rule ccontr)
  assume ne: "binade x \<noteq> k"
  note b = binade_bounds [OF assms(1)]
  show False
  proof (cases "binade x < k")
    case True
    then have "(2::real) powi (binade x + 1) \<le> 2 powi k"
      by (intro power_int_increasing) simp_all
    with b(2) assms(2) show False by linarith
  next
    case False
    with ne have "k + 1 \<le> binade x" by simp
    then have "(2::real) powi (k + 1) \<le> 2 powi binade x"
      by (intro power_int_increasing) simp_all
    with b(1) assms(3) show False by linarith
  qed
qed

lemma binade_mono:
  assumes "0 < x" "x \<le> y"
  shows "binade x \<le> binade y"
proof (rule ccontr)
  assume "\<not> binade x \<le> binade y"
  then have "binade y + 1 \<le> binade x" by simp
  then have "(2::real) powi (binade y + 1) \<le> 2 powi binade x"
    by (intro power_int_increasing) simp_all
  with binade_bounds(1) [OF assms(1)] binade_bounds(2) [of y] assms show False by linarith
qed


lemma float64_zero [simp]: "float64 0 = 0"
  by (simp add: float64_def)

lemma float64_minus: "float64 (- x) = - float64 x"
  by (simp add: float64_def Let_def sgn_minus)

lemma float64_pos:
  "0 < x \<Longrightarrow> float64 x = of_int (round_half_even (x / 2 powi (max (binade x) (- 1022) - 52)))
                           * 2 powi (max (binade x) (- 1022) - 52)"
  by (simp add: float64_def Let_def)

lemma float64_nonneg: "0 \<le> x \<Longrightarrow> 0 \<le> float64 x"
proof (cases "x = 0")
  case True
  then show ?thesis by simp
next
  case False
  assume "0 \<le> x"
  with False have x: "0 < x" by simp
  have "round_half_even 0 \<le> round_half_even (x / 2 powi (max (binade x) (- 1022) - 52))"
    using x by (intro round_half_even_mono) simp
  then have "0 \<le> round_half_even (x / 2 powi (max (binade x) (- 1022) - 52))"
    using round_half_even_of_int [of 0] by simp
  then show ?thesis
    by (simp add: float64_pos [OF x])
qed

lemma pow2_shift:
  "(2::real) ^ 53 * 2 powi (b - 52) = 2 powi (b + 1)"
  "(2::real) ^ 52 * 2 powi (b - 52) = 2 powi b"
  by (simp_all add: power_int_add power_int_diff)

lemma float64_pos_upper:
  assumes "0 < x"
  shows "float64 x \<le> 2 powi (max (binade x) (- 1022) + 1)"
proof -
  define b where "b = max (binade x) (- 1022)"
  have p: "(0::real) < 2 powi (b - 52)" by simp
  have "x < 2 powi (binade x + 1)" using binade_bounds(2) [OF assms] .
  also have "\<dots> \<le> 2 powi (b + 1)"
    by (intro power_int_increasing) (simp_all add: b_def)
  also have "\<dots> = 2 ^ 53 * 2 powi (b - 52)"
    by (simp only: pow2_shift)
  finally have "x / 2 powi (b - 52) \<le> 2 ^ 53"
    using p by (simp only: pos_divide_le_eq)
  also have "(2::real) ^ 53 = of_int (2 ^ 53)" by simp
  finally have "round_half_even (x / 2 powi (b - 52)) \<le> round_half_even (of_int (2 ^ 53))"
    by (rule round_half_even_mono)
  then have "round_half_even (x / 2 powi (b - 52)) \<le> 2 ^ 53"
    by (simp only: round_half_even_of_int)
  then have "real_of_int (round_half_even (x / 2 powi (b - 52))) \<le> 2 ^ 53"
    by (rule of_int_le_pow2)
  then have "real_of_int (round_half_even (x / 2 powi (b - 52))) * 2 powi (b - 52)
               \<le> 2 ^ 53 * 2 powi (b - 52)"
    using p by (intro mult_right_mono) simp_all
  also have "2 ^ 53 * 2 powi (b - 52) = (2::real) powi (b + 1)"
    by (simp only: pow2_shift)
  finally show ?thesis
    unfolding float64_pos [OF assms] b_def .
qed

lemma float64_pos_lower:
  assumes "0 < x" "- 1022 \<le> binade x"
  shows "2 powi binade x \<le> float64 x"
proof -
  define b where "b = binade x"
  have m: "max (binade x) (- 1022) = b" using assms(2) by (simp add: b_def)
  have p: "(0::real) < 2 powi (b - 52)" by simp
  have "2 ^ 52 * 2 powi (b - 52) = (2::real) powi b"
    by (simp only: pow2_shift)
  also have "\<dots> \<le> x" using binade_bounds(1) [OF assms(1)] by (simp add: b_def)
  finally have "2 ^ 52 \<le> x / 2 powi (b - 52)"
    using p by (simp only: pos_le_divide_eq)
  moreover have "(2::real) ^ 52 = of_int (2 ^ 52)" by simp
  ultimately have "real_of_int (2 ^ 52) \<le> x / 2 powi (b - 52)" by simp
  then have "round_half_even (of_int (2 ^ 52)) \<le> round_half_even (x / 2 powi (b - 52))"
    by (rule round_half_even_mono)
  then have "2 ^ 52 \<le> round_half_even (x / 2 powi (b - 52))"
    by (simp only: round_half_even_of_int)
  then have "2 ^ 52 \<le> real_of_int (round_half_even (x / 2 powi (b - 52)))"
    by (rule pow2_le_of_int)
  then have "2 ^ 52 * 2 powi (b - 52) \<le> real_of_int (round_half_even (x / 2 powi (b - 52))) * 2 powi (b - 52)"
    using p by (intro mult_right_mono) simp_all
  then have "2 powi b \<le> real_of_int (round_half_even (x / 2 powi (b - 52))) * 2 powi (b - 52)"
    by (simp only: pow2_shift)
  then show ?thesis
    unfolding float64_pos [OF assms(1)] m b_def .
qed

lemma float64_mono_pos:
  assumes "0 < x" "x \<le> y"
  shows "float64 x \<le> float64 y"
proof -
  from assms have y: "0 < y" by simp
  define bx where "bx = max (binade x) (- 1022)"
  define by' where "by' = max (binade y) (- 1022)"
  have le: "bx \<le> by'"
    using binade_mono [OF assms] by (simp add: bx_def by'_def)
  show ?thesis
  proof (cases "bx = by'")
    case True
    have "x / 2 powi (bx - 52) \<le> y / 2 powi (bx - 52)"
      using assms(2) by (simp add: divide_right_mono)
    then have "round_half_even (x / 2 powi (bx - 52)) \<le> round_half_even (y / 2 powi (bx - 52))"
      by (rule round_half_even_mono)
    then have "real_of_int (round_half_even (x / 2 powi (bx - 52))) * 2 powi (bx - 52)
                 \<le> real_of_int (round_half_even (y / 2 powi (bx - 52))) * 2 powi (bx - 52)"
      by (intro mult_right_mono) simp_all
    then show ?thesis
      using True by (simp add: float64_pos [OF assms(1)] float64_pos [OF y] bx_def by'_def)
  next
    case False
    with le have lt: "bx + 1 \<le> by'" by simp
    then have "- 1022 < by'" by (simp add: bx_def)
    then have by_eq: "by' = binade y" and ge: "- 1022 \<le> binade y"
      by (simp_all add: by'_def max_def split: if_splits)
    have "float64 x \<le> 2 powi (bx + 1)"
      using float64_pos_upper [OF assms(1)] by (simp add: bx_def)
    also have "\<dots> \<le> 2 powi by'"
      using lt by (intro power_int_increasing) simp_all
    also have "\<dots> \<le> float64 y"
      using float64_pos_lower [OF y ge] by (simp add: by_eq)
    finally show ?thesis .
  qed
qed

lemma float64_mono: "x \<le> y \<Longrightarrow> float64 x \<le> float64 y"
proof -
  assume le: "x \<le> y"
  consider "0 < x" | "x \<le> 0" "0 \<le> y" | "y < 0" by linarith
  then show ?thesis
  proof cases
    case 1
    then show ?thesis using le by (rule float64_mono_pos)
  next
    case 2
    have "float64 x = - float64 (- x)" by (simp add: float64_minus)
    moreover have "0 \<le> float64 (- x)" using 2(1) by (intro float64_nonneg) simp
    moreover have "0 \<le> float64 y" using 2(2) by (rule float64_nonneg)
    ultimately show ?thesis by linarith
  next
    case 3
    with le have "0 < - y" "- y \<le> - x" by simp_all
    then have "float64 (- y) \<le> float64 (- x)" by (rule float64_mono_pos)
    then show ?thesis by (simp add: float64_minus)
  qed
qed

lemma float64_eval:
  assumes "0 < x" "2 powi k \<le> x" "x < 2 powi (k + 1)" "- 1022 \<le> k"
  shows "float64 x = of_int (round_half_even (x / 2 powi (k - 52))) * 2 powi (k - 52)"
  using binade_unique [OF assms(1-3)] assms(4) by (simp add: float64_pos [OF assms(1)])

lemma float64_of_int:
  assumes "\<bar>n\<bar> < 2 ^ 53"
  shows "float64 (of_int n) = of_int n"
proof -
  have pos: "float64 (of_int n) = of_int n" if n: "0 < n" "n < 2 ^ 53" for n :: int
  proof -
    define b where "b = binade (of_int n)"
    have x: "(0::real) < of_int n" using n by simp
    have "1 \<le> real_of_int n" using n by simp
    then have b_def': "b = bitlen n - 1"
      by (simp add: b_def binade_def)
    have b0: "0 \<le> b" using n by (simp add: b_def' bitlen_alt_def)
    have "bitlen n \<le> 53"
      using n by (simp add: bitlen_le_iff_power)
    then have b52: "b \<le> 52" by (simp add: b_def')
    have m: "max b (- 1022) = b" using b0 by simp
    have "real_of_int n / 2 powi (b - 52) = real_of_int n * 2 powi (52 - b)"
      using power_int_minus [of "2::real" "52 - b"] by (simp add: field_simps)
    also have "\<dots> = real_of_int (n * 2 ^ nat (52 - b))"
      using b52 by (simp add: power_int_def)
    finally have "round_half_even (real_of_int n / 2 powi (b - 52)) = n * 2 ^ nat (52 - b)"
      by (simp only: round_half_even_of_int)
    then have "float64 (of_int n) = real_of_int (n * 2 ^ nat (52 - b)) * 2 powi (b - 52)"
      by (simp add: float64_pos [OF x] m b_def [symmetric])
    also have "\<dots> = real_of_int n * (2 powi (52 - b) * 2 powi (b - 52))"
      using b52 by (simp add: power_int_def)
    also have "2 powi (52 - b) * 2 powi (b - 52) = (1::real)"
      using power_int_add [of "2::real" "52 - b" "b - 52"] by simp
    finally show ?thesis by simp
  qed
  consider "n = 0" | "0 < n" | "n < 0" by linarith
  then show ?thesis
  proof cases
    case 1
    then show ?thesis by simp
  next
    case 2
    with assms show ?thesis by (intro pos) simp_all
  next
    case 3
    with assms have "float64 (of_int (- n)) = of_int (- n)" by (intro pos) simp_all
    then show ?thesis by (simp add: float64_minus)
  qed
qed

lemma float64_numeral [simp]:
  "numeral w < (2::int) ^ 53 \<Longrightarrow> float64 (numeral w) = numeral w"
  using float64_of_int [of "numeral w"] by simp

lemma float64_one [simp]: "float64 1 = 1"
  using float64_of_int [of 1] by simp

lemma float64_error:
  assumes "0 < x"
  shows "\<bar>float64 x - x\<bar> \<le> 2 powi (max (binade x) (- 1022) - 53)"
proof -
  define e where "e = max (binade x) (- 1022) - 52"
  define y where "y = x / 2 powi e"
  have p: "(0::real) < 2 powi e" by simp
  have x: "x = y * 2 powi e" by (simp add: y_def)
  have "float64 x = of_int (round_half_even y) * 2 powi e"
    unfolding float64_pos [OF assms] e_def [symmetric] y_def [symmetric] ..
  then have "float64 x - x = of_int (round_half_even y) * 2 powi e - y * 2 powi e"
    using x by simp
  then have "float64 x - x = (of_int (round_half_even y) - y) * 2 powi e"
    by (simp only: left_diff_distrib)
  then have "\<bar>float64 x - x\<bar> = \<bar>of_int (round_half_even y) - y\<bar> * 2 powi e"
    by (simp add: abs_mult)
  also have "\<dots> \<le> 1 / 2 * 2 powi e"
    using round_half_even_error [of y] by (intro mult_right_mono) simp_all
  also have "\<dots> = 2 powi (e - 1)"
    by (simp add: power_int_diff)
  finally show ?thesis
    by (simp add: e_def)
qed

lemma float64_error_below_128:
  assumes "0 < x" "x \<le> 100"
  shows "\<bar>float64 x - x\<bar> \<le> 1 / 2 ^ 47"
proof -
  have "binade x < 7"
  proof (rule ccontr)
    assume "\<not> binade x < 7"
    then have "(2::real) powi 7 \<le> 2 powi binade x"
      by (intro power_int_increasing) simp_all
    with binade_bounds(1) [OF assms(1)] assms(2) show False by simp
  qed
  then have "max (binade x) (- 1022) - 53 \<le> - 47" by simp
  then have "(2::real) powi (max (binade x) (- 1022) - 53) \<le> 2 powi (- 47)"
    by (intro power_int_increasing) simp_all
  also have "\<dots> = 1 / 2 ^ 47"
    by (simp add: power_int_minus_divide)
  finally show ?thesis
    using float64_error [OF assms(1)] by linarith
qed

lemma percent_roundtrip:
  assumes "0 \<le> n" "n \<le> 10000"
  shows "sql_ROUND (float64 (of_int n / 100)) 2 = of_int n / 100"
proof (cases "n = 0")
  case True
  then show ?thesis by (simp add: sql_ROUND_def)
next
  case False
  define x where "x = real_of_int n / 100"
  define y where "y = float64 x"
  from False assms have n1: "1 \<le> n" by simp
  then have x: "1 / 100 \<le> x" "x \<le> 100"
    using assms(2) by (simp_all add: x_def)
  then have x0: "0 < x" by simp
  have "\<bar>y - x\<bar> \<le> 1 / 2 ^ 47"
    unfolding y_def by (rule float64_error_below_128 [OF x0 x(2)])
  then have close: "\<bar>y - x\<bar> \<le> 1 / 1000"
    by simp
  with x have y0: "0 < y" by linarith
  have "real_of_int n = x * 100" by (simp add: x_def)
  with close have "real_of_int n \<le> y * 100 + 1 / 2" "y * 100 + 1 / 2 < real_of_int n + 1"
    by linarith+
  then have "\<lfloor>y * 100 + 1 / 2\<rfloor> = n"
    by linarith
  then show ?thesis
    using y0 by (simp add: sql_ROUND_def y_def [symmetric] x_def [symmetric])
qed

lemma sql_ROUND_grid:
  assumes "0 \<le> q" "q \<le> 100"
  shows "\<exists>n. 0 \<le> n \<and> n \<le> 10000 \<and> sql_ROUND q 2 = of_int n / 100"
proof (cases "q = 0")
  case True
  then show ?thesis by (intro exI [of _ 0]) (simp add: sql_ROUND_def)
next
  case False
  with assms have pos: "0 < q" by simp
  have "\<lfloor>q * 100 + 1 / 2\<rfloor> \<le> 10000"
    using assms(2) by (simp add: floor_le_iff)
  moreover have "0 \<le> \<lfloor>q * 100 + 1 / 2\<rfloor>"
    using pos by simp
  ultimately show ?thesis
    using pos by (intro exI [of _ "\<lfloor>q * 100 + 1 / 2\<rfloor>"]) (simp add: sql_ROUND_def)
qed

lemma float64_fifth: "float64 (1 / 5) = 3602879701896397 / 18014398509481984"
  by (subst float64_eval [where k = "- 3"]) (simp_all add: round_half_even_def)

lemma float64_tenth: "float64 (1 / 10) = 3602879701896397 / 36028797018963968"
  by (subst float64_eval [where k = "- 4"]) (simp_all add: round_half_even_def)

lemma float64_four_fifths: "float64 (4 / 5) = 3602879701896397 / 4503599627370496"
  by (subst float64_eval [where k = "- 1"]) (simp_all add: round_half_even_def)

lemma float64_three_tenths: "float64 (3 / 10) = 5404319552844595 / 18014398509481984"
  by (subst float64_eval [where k = "- 2"]) (simp_all add: round_half_even_def)

lemma float64_of_fifth: "float64 (3602879701896397 / 18014398509481984) = 3602879701896397 / 18014398509481984"
  by (subst float64_eval [where k = "- 3"]) (simp_all add: round_half_even_def)

lemma float64_sum_fifth_tenth:
  "float64 (10808639105689191 / 36028797018963968) = 1351079888211149 / 4503599627370496"
  by (subst float64_eval [where k = "- 2"]) (simp_all add: round_half_even_def)

lemma float64_three_times_four_fifths:
  "float64 (10808639105689191 / 4503599627370496) = 1351079888211149 / 562949953421312"
  by (subst float64_eval [where k = 1]) (simp_all add: round_half_even_def)

lemma float64_twelve_fifths: "float64 (12 / 5) = 5404319552844595 / 2251799813685248"
  by (subst float64_eval [where k = 1]) (simp_all add: round_half_even_def)

lemma float64_half: "float64 (1 / 2) = 1 / 2"
  by (subst float64_eval [where k = "- 1"]) (simp_all add: round_half_even_def)

lemma sorted_float64:
  "sorted_wrt (\<lambda>a b. f a \<ge> f b) xs \<Longrightarrow> sorted_wrt (\<ge>) (map (\<lambda>x. float64 (f x)) xs)"
  unfolding sorted_wrt_map by (erule sorted_wrt_mono_rel [rotated]) (rule float64_mono)

subsection \<open>Queries and jobs\<close>

lemma order_by_desc_sorted: "sorted_wrt (\<lambda>a b. f a \<ge> f b) (order_by_desc f rows)"
proof -
  have "sorted (map f (sort_key f rows))"
    by (rule sorted_sort_key)
  then have "sorted_wrt (\<lambda>a b. f a \<le> f b) (sort_key f rows)"
    by (simp add: sorted_map)
  then show ?thesis
    by (simp add: order_by_desc_def sorted_wrt_rev)
qed

lemma set_order_by_desc: "set (order_by_desc f rows) = set rows"
  by (simp add: order_by_desc_def)

lemma length_order_by_desc: "length (order_by_desc f rows) = length rows"
  by (simp add: order_by_desc_def)

lemma distinct_map_order_by_desc:
  "distinct (map g (order_by_desc f rows)) = distinct (map g rows)"
proof -
  have "mset (map g (order_by_desc f rows)) = mset (map g rows)"
    by (simp add: order_by_desc_def)
  then show ?thesis
    by (rule mset_eq_imp_distinct_iff)
qed

lemma card_image_list: "card (f ` set xs) = length (remdups (map f xs))"
  by (simp add: length_remdups_card_conv)

lemma rollup_loop_eq:
  "rollup_loop rows breakdown totalCost
     = (breakdown @ map scan_CostBreakdown rows,
        foldl (\<lambda>s x. float64 (s + x)) totalCost (map cb_Cost (map scan_CostBreakdown rows)))"
  by (induction rows arbitrary: breakdown totalCost) (simp_all add: Let_def fadd_def)

lemma quiet_duplicates: "duplicates_query md5 demo_now quiet_table = []"
  by (simp add: duplicates_query_def quiet_table_def demo_now_def demo_record_def clock_defs
      group_by_def duplicate_key_def order_by_desc_def)

lemma quiet_cache: "cache_query md5 demo_now quiet_table = []"
  by (simp add: cache_query_def endpoint_stats_def quiet_table_def demo_now_def demo_record_def
      clock_defs group_by_def order_by_desc_def)

lemma quiet_anomalies: "anomalies_query demo_now quiet_table = []"
  by (simp add: anomalies_query_def hourly_costs_def avg_costs_def quiet_table_def demo_now_def
      demo_record_def clock_defs group_by_def order_by_desc_def hourly_cost_row_def
      avg_cost_row_def exceeds_threshold_def sql_STDDEV_def)

lemma stale_cache_reachable: "reachable stale_cache"
  by (simp add: stale_cache_def)

lemma stale_cache_get:
  "redis_Get stale_cache demo_now ''analytics:duplicates'' = Inr (Json (JArr [JStr ''old'']))"
  "redis_Get stale_cache demo_now ''analytics:cache_recommendations'' = Inr (Json (JArr [JStr ''old'']))"
  "redis_Get stale_cache demo_now ''analytics:anomalies'' = Inr (Json (JArr [JStr ''old'']))"
  "redis_Get stale_cache demo_now ''costs:24h:by_provider'' = Inr (Json (JObj [(''total_cost'', JNum 7)]))"
  by (simp_all add: redis_Get_def stale_cache_def demo_now_def clock_defs)

lemma job_Unavailable:
  "detectDuplicates md5 Unavailable now cnow c = c"
  "analyzeCacheOpportunities md5 sprintf Unavailable now cnow c = c"
  "detectAnomalies sprintf Unavailable now cnow c = c"
  "calculateRealTimeCosts Unavailable now tnow cnow c = c"
  by (simp_all add: detectDuplicates_def analyzeCacheOpportunities_def detectAnomalies_def
        calculateRealTimeCosts_def QueryContext_def)

section \<open>Frame properties of the jobs\<close>

text \<open>
  Claim C7.  When the duplicates query returns no group, \<open>detectDuplicates\<close> performs no
  cache write: the cache after the run is the cache before it, so a reader of
  \<^verbatim>\<open>analytics:duplicates\<close> gets at any time what it would have got without the run.
\<close>

theorem detectDuplicates_empty_result_leaves_cache:
  "duplicates_query md5 now tbl = [] \<Longrightarrow>
     detectDuplicates md5 (Online tbl) now cnow c = c \<and>
     redis_Get (detectDuplicates md5 (Online tbl) now cnow c) t ''analytics:duplicates''
       = redis_Get c t ''analytics:duplicates''"
  by (simp add: detectDuplicates_def QueryContext_def)

theorem detectDuplicates_empty_result_witness:
  "duplicates_query id demo_now quiet_table = [] \<and>
   detectDuplicates id (Online quiet_table) demo_now demo_now stale_cache = stale_cache \<and>
   redis_Get (detectDuplicates id (Online quiet_table) demo_now demo_now stale_cache) demo_now
     ''analytics:duplicates'' = Inr (Json (JArr [JStr ''old'']))"
  using detectDuplicates_empty_result_leaves_cache
          [OF quiet_duplicates, of id demo_now stale_cache demo_now]
        quiet_duplicates [of id] stale_cache_get(1)
  by simp

text \<open>
  Claim C8.  A job whose store query fails returns with the cache exactly as it was, and
  the failure stays inside that job: the other jobs of the same iteration run as they
  would have run on their own.
\<close>

theorem store_failure_skips_cycle:
  "detectDuplicates md5 Unavailable now cnow c = c \<and>
   analyzeCacheOpportunities md5 sprintf Unavailable now cnow c = c \<and>
   detectAnomalies sprintf Unavailable now cnow c = c \<and>
   calculateRealTimeCosts Unavailable now tnow cnow c = c \<and>
   continuousAnalysis_iteration md5 sprintf (Unavailable, n1, k1) (db2, n2, k2) (db3, n3, k3) c
     = detectAnomalies sprintf db3 n3 k3 (analyzeCacheOpportunities md5 sprintf db2 n2 k2 c) \<and>
   continuousAnalysis_iteration md5 sprintf (db1, n1, k1) (Unavailable, n2, k2) (db3, n3, k3) c
     = detectAnomalies sprintf db3 n3 k3 (detectDuplicates md5 db1 n1 k1 c) \<and>
   continuousAnalysis_iteration md5 sprintf (db1, n1, k1) (db2, n2, k2) (Unavailable, n3, k3) c
     = analyzeCacheOpportunities md5 sprintf db2 n2 k2 (detectDuplicates md5 db1 n1 k1 c)"
  by (simp add: continuousAnalysis_iteration_def job_Unavailable)

theorem store_failure_skips_cycle_witness:
  "detectDuplicates id Unavailable demo_now demo_now stale_cache = stale_cache \<and>
   calculateRealTimeCosts Unavailable demo_now demo_now demo_now stale_cache = stale_cache \<and>
   redis_Get (calculateRealTimeCosts Unavailable demo_now demo_now demo_now stale_cache) demo_now
     ''costs:24h:by_provider'' = Inr (Json (JObj [(''total_cost'', JNum 7)]))"
  using store_failure_skips_cycle [of id demo_now demo_now stale_cache "\<lambda>f args. f" demo_now]
        stale_cache_get(4)
  by simp

text \<open>
  Claim C10.  The cache-opportunity job and the anomaly job write nothing either when
  their result list is empty: the cache is left as it was, and an artifact cached earlier
  under their key is served until the instant it expires at.
\<close>

theorem analysis_empty_result_leaves_cache:
  "reachable c \<Longrightarrow>
   (cache_query md5 now tbl = [] \<longrightarrow>
      analyzeCacheOpportunities md5 sprintf (Online tbl) now cnow c = c \<and>
      (\<forall>v expires t. entries c ''analytics:cache_recommendations'' = Some (v, expires) \<longrightarrow>
         redis_Get (analyzeCacheOpportunities md5 sprintf (Online tbl) now cnow c) t
           ''analytics:cache_recommendations'' = (if t < expires then Inr v else Inl RedisNil))) \<and>
   (anomalies_query now tbl = [] \<longrightarrow>
      detectAnomalies sprintf (Online tbl) now cnow c = c \<and>
      (\<forall>v expires t. entries c ''analytics:anomalies'' = Some (v, expires) \<longrightarrow>
         redis_Get (detectAnomalies sprintf (Online tbl) now cnow c) t
           ''analytics:anomalies'' = (if t < expires then Inr v else Inl RedisNil)))"
  by (simp add: analyzeCacheOpportunities_def detectAnomalies_def QueryContext_def redis_Get_def)

theorem analysis_empty_result_witness:
  "reachable stale_cache \<and>
   cache_query id demo_now quiet_table = [] \<and>
   anomalies_query demo_now quiet_table = [] \<and>
   entries stale_cache ''analytics:anomalies'' = Some (Json (JArr [JStr ''old'']), 12 * hour) \<and>
   analyzeCacheOpportunities id (\<lambda>f args. f) (Online quiet_table) demo_now demo_now stale_cache
     = stale_cache \<and>
   detectAnomalies (\<lambda>f args. f) (Online quiet_table) demo_now demo_now stale_cache = stale_cache \<and>
   redis_Get (detectAnomalies (\<lambda>f args. f) (Online quiet_table) demo_now demo_now stale_cache)
     demo_now ''analytics:anomalies'' = Inr (Json (JArr [JStr ''old''])) \<and>
   redis_Get (detectAnomalies (\<lambda>f args. f) (Online quiet_table) demo_now demo_now stale_cache)
     (12 * hour) ''analytics:anomalies'' = Inl RedisNil"
proof -
  have e: "entries stale_cache ''analytics:anomalies'' = Some (Json (JArr [JStr ''old'']), 12 * hour)"
    by (simp add: stale_cache_def)
  have lt: "demo_now < 12 * hour"
    by (simp add: demo_now_def clock_defs)
  note main = analysis_empty_result_leaves_cache
                [OF stale_cache_reachable, of id demo_now quiet_table "\<lambda>f args. f" demo_now]
  from main quiet_cache [of id] have 1:
    "analyzeCacheOpportunities id (\<lambda>f args. f) (Online quiet_table) demo_now demo_now stale_cache
       = stale_cache"
    by blast
  from main quiet_anomalies have 2:
    "detectAnomalies (\<lambda>f args. f) (Online quiet_table) demo_now demo_now stale_cache = stale_cache"
    and 3: "\<And>t. redis_Get (detectAnomalies (\<lambda>f args. f) (Online quiet_table) demo_now demo_now
                 stale_cache) t ''analytics:anomalies''
               = (if t < 12 * hour then Inr (Json (JArr [JStr ''old''])) else Inl RedisNil)"
    using e by blast+
  show ?thesis
    using 1 2 3 [of demo_now] 3 [of "12 * hour"] e lt stale_cache_reachable
          quiet_cache [of id] quiet_anomalies
    by simp
qed

section \<open>The cost rollup\<close>

lemma published_redis_Set: "published (redis_Set c cnow key v ttl) = published c"
  by (simp add: redis_Set_def)

lemma costs_query_eq:
  "costs_query now tbl =
     order_by_desc pr_total_cost
       (map (\<lambda>p. provider_row (p, provider_records now tbl p))
          (remdups (map provider (trailing_window (24 * hour) now tbl))))"
  by (simp add: costs_query_def group_by_def provider_records_def trailing_window_def comp_def)

lemma provider_row_provider: "map pr_provider (map (\<lambda>p. provider_row (p, g p)) ps) = ps"
  by (induction ps) (simp_all add: provider_row_def)

lemma costs_query_providers:
  "distinct (map pr_provider (costs_query now tbl))"
  "set (map pr_provider (costs_query now tbl)) = provider ` set (trailing_window (24 * hour) now tbl)"
proof -
  show "distinct (map pr_provider (costs_query now tbl))"
    unfolding costs_query_eq distinct_map_order_by_desc provider_row_provider by simp
  have "set (map pr_provider (costs_query now tbl))
          = set (map pr_provider (map (\<lambda>p. provider_row (p, provider_records now tbl p))
                   (remdups (map provider (trailing_window (24 * hour) now tbl)))))"
    unfolding costs_query_eq by (simp only: set_map set_order_by_desc)
  then show "set (map pr_provider (costs_query now tbl)) = provider ` set (trailing_window (24 * hour) now tbl)"
    unfolding provider_row_provider by simp
qed

lemma costs_query_rows:
  assumes "row \<in> set (costs_query now tbl)"
  shows "row = provider_row (pr_provider row, provider_records now tbl (pr_provider row))"
proof -
  from assms obtain p where "row = provider_row (p, provider_records now tbl p)"
    unfolding costs_query_eq set_order_by_desc by auto
  moreover from this have "pr_provider row = p"
    by (simp add: provider_row_def)
  ultimately show ?thesis by simp
qed

lemma breakdown_items:
  assumes "b \<in> set (map scan_CostBreakdown (costs_query now tbl))"
  shows "cb_Cost b = float64 (sum_list (map cost (provider_records now tbl (cb_Label b))))"
    and "cb_RequestCount b = int (length (provider_records now tbl (cb_Label b)))"
    and "cb_AvgLatency b
           = float64 (sum_list (map (\<lambda>r. real_of_int (latency_ms r)) (provider_records now tbl (cb_Label b)))
                        / real (length (provider_records now tbl (cb_Label b))))"
    and "cb_ErrorCount b = int (length (filter (\<lambda>r. 400 \<le> status_code r) (provider_records now tbl (cb_Label b))))"
proof -
  from assms obtain row where row: "row \<in> set (costs_query now tbl)" and b: "b = scan_CostBreakdown row"
    by auto
  have l: "cb_Label b = pr_provider row"
    by (simp add: b scan_CostBreakdown_def)
  note r = costs_query_rows [OF row, folded l]
  show "cb_Cost b = float64 (sum_list (map cost (provider_records now tbl (cb_Label b))))"
    by (subst b, subst r) (simp add: scan_CostBreakdown_def provider_row_def sql_SUM_def)
  show "cb_RequestCount b = int (length (provider_records now tbl (cb_Label b)))"
    by (subst b, subst r) (simp add: scan_CostBreakdown_def provider_row_def)
  show "cb_AvgLatency b
           = float64 (sum_list (map (\<lambda>r. real_of_int (latency_ms r)) (provider_records now tbl (cb_Label b)))
                        / real (length (provider_records now tbl (cb_Label b))))"
    by (subst b, subst r) (simp add: scan_CostBreakdown_def provider_row_def sql_AVG_def)
  show "cb_ErrorCount b = int (length (filter (\<lambda>r. 400 \<le> status_code r) (provider_records now tbl (cb_Label b))))"
    by (subst b, subst r) (simp add: scan_CostBreakdown_def provider_row_def)
qed

lemma breakdown_labels:
  "map cb_Label (map scan_CostBreakdown rows) = map pr_provider rows"
  by (induction rows) (simp_all add: scan_CostBreakdown_def)

lemma breakdown_sorted:
  "sorted_wrt (\<ge>) (map cb_Cost (map scan_CostBreakdown (costs_query now tbl)))"
proof -
  have m: "map cb_Cost (map scan_CostBreakdown rows) = map (\<lambda>r. float64 (pr_total_cost r)) rows" for rows
    by (induction rows) (simp_all add: scan_CostBreakdown_def)
  show ?thesis
    unfolding m costs_query_def by (rule sorted_float64 [OF order_by_desc_sorted])
qed

lemma costs_query_empty_window:
  "trailing_window (24 * hour) now tbl = [] \<Longrightarrow> costs_query now tbl = []"
  by (simp add: costs_query_eq order_by_desc_def)

lemma calculateRealTimeCosts_Online:
  "calculateRealTimeCosts (Online tbl) now tnow cnow c =
     redis_Set c cnow ''costs:24h:by_provider''
       (Json (rollup_document (map scan_CostBreakdown (costs_query now tbl))
                (foldl (\<lambda>s x. float64 (s + x)) 0 (map cb_Cost (map scan_CostBreakdown (costs_query now tbl))))
                tnow))
       (5 * minute)"
  by (simp add: calculateRealTimeCosts_def QueryContext_def rollup_loop_eq)

lemma demo_costs_query:
  "costs_query demo_now demo_table =
     [\<lparr>pr_provider = ''OpenAI'', pr_request_count = 12, pr_total_cost = 22, pr_avg_latency = 120,
       pr_error_count = 0\<rparr>]"
  by (simp add: costs_query_def demo_table_def demo_now_def demo_record_def clock_defs
      group_by_def order_by_desc_def provider_row_def sql_SUM_def sql_AVG_def)

lemma float_costs_query:
  "costs_query demo_now float_table =
     [\<lparr>pr_provider = ''OpenAI'', pr_request_count = 1, pr_total_cost = 1 / 5, pr_avg_latency = 120,
       pr_error_count = 0\<rparr>,
      \<lparr>pr_provider = ''SendGrid'', pr_request_count = 1, pr_total_cost = 1 / 10, pr_avg_latency = 120,
       pr_error_count = 0\<rparr>]"
  by (simp add: costs_query_def float_table_def demo_now_def call_def clock_defs
      group_by_def order_by_desc_def provider_row_def sql_SUM_def sql_AVG_def)

lemma float_rollup:
  "calculateRealTimeCosts (Online float_table) demo_now tnow cnow c =
     redis_Set c cnow ''costs:24h:by_provider''
       (Json (JObj [(''breakdown'',
                     JArr [JObj [(''label'', JStr ''OpenAI''),
                                 (''cost'', JNum (3602879701896397 / 18014398509481984)),
                                 (''request_count'', JNum 1), (''avg_latency'', JNum 120),
                                 (''error_count'', JNum 0)],
                           JObj [(''label'', JStr ''SendGrid''),
                                 (''cost'', JNum (3602879701896397 / 36028797018963968)),
                                 (''request_count'', JNum 1), (''avg_latency'', JNum 120),
                                 (''error_count'', JNum 0)]]),
                    (''total_cost'', JNum (1351079888211149 / 4503599627370496)),
                    (''updated_at'', JTime tnow)]))
       (5 * minute)"
  by (simp add: calculateRealTimeCosts_Online float_costs_query scan_CostBreakdown_def
        rollup_document_def marshal_CostBreakdown_def float64_fifth float64_tenth
        float64_of_fifth float64_sum_fifth_tenth)

text \<open>
  Claim C4, as the code has it.  A rollup run whose query succeeds, against a cache it
  reaches, always ends with the key \<^verbatim>\<open>costs:24h:by_provider\<close> bound to a new document,
  whatever was there before and with every other key left alone; the document expires 5
  minutes after the write and is stamped with \<^verbatim>\<open>time.Now()\<close>.  Its breakdown has one item
  per provider that has a record in the last 24 hours: the item's cost is the double
  nearest to the summed cost of the provider's records, its count their number, its error
  count the number of them with a status of 400 or more.  The breakdown is ordered by cost, largest first.  The total is
  the float64 sum of the costs of the breakdown, added one at a time in the order of the
  breakdown, each addition rounded to the nearest double.  An empty window gives the empty
  breakdown and the total 0.
\<close>

theorem calculateRealTimeCosts_always_writes:
  "reachable c \<Longrightarrow>
   \<exists>(breakdown :: CostBreakdown list) totalCost doc.
     doc = JObj [(''breakdown'',
                  JArr (map (\<lambda>b. JObj [(''label'', JStr (cb_Label b)),
                                        (''cost'', JNum (cb_Cost b)),
                                        (''request_count'', JNum (of_int (cb_RequestCount b))),
                                        (''avg_latency'', JNum (cb_AvgLatency b)),
                                        (''error_count'', JNum (of_int (cb_ErrorCount b)))])
                          breakdown)),
                 (''total_cost'', JNum totalCost),
                 (''updated_at'', JTime tnow)] \<and>
     calculateRealTimeCosts (Online tbl) now tnow cnow c
       = c\<lparr>entries := (entries c)(''costs:24h:by_provider'' \<mapsto> (Json doc, cnow + 5 * minute))\<rparr> \<and>
     redis_Get (calculateRealTimeCosts (Online tbl) now tnow cnow c) t ''costs:24h:by_provider''
       = (if t < cnow + 5 * minute then Inr (Json doc) else Inl RedisNil) \<and>
     distinct (map cb_Label breakdown) \<and>
     set (map cb_Label breakdown) = provider ` set (trailing_window (24 * hour) now tbl) \<and>
     (\<forall>b \<in> set breakdown.
        cb_Cost b = float64 (sum_list (map cost (provider_records now tbl (cb_Label b)))) \<and>
        cb_RequestCount b = int (length (provider_records now tbl (cb_Label b))) \<and>
        cb_ErrorCount b
          = int (length (filter (\<lambda>r. 400 \<le> status_code r) (provider_records now tbl (cb_Label b))))) \<and>
     sorted_wrt (\<ge>) (map cb_Cost breakdown) \<and>
     totalCost = foldl (\<lambda>s x. float64 (s + x)) 0 (map cb_Cost breakdown) \<and>
     (trailing_window (24 * hour) now tbl = [] \<longrightarrow> breakdown = [] \<and> totalCost = 0)"
proof -
  assume c: "reachable c"
  define breakdown where "breakdown = map scan_CostBreakdown (costs_query now tbl)"
  define totalCost where "totalCost = foldl (\<lambda>s x. float64 (s + x)) 0 (map cb_Cost breakdown)"
  define doc where "doc = rollup_document breakdown totalCost tnow"
  have run: "calculateRealTimeCosts (Online tbl) now tnow cnow c
               = redis_Set c cnow ''costs:24h:by_provider'' (Json doc) (5 * minute)"
    by (simp only: calculateRealTimeCosts_Online doc_def totalCost_def breakdown_def)
  have 1: "doc = JObj [(''breakdown'',
                  JArr (map (\<lambda>b. JObj [(''label'', JStr (cb_Label b)),
                                        (''cost'', JNum (cb_Cost b)),
                                        (''request_count'', JNum (of_int (cb_RequestCount b))),
                                        (''avg_latency'', JNum (cb_AvgLatency b)),
                                        (''error_count'', JNum (of_int (cb_ErrorCount b)))])
                          breakdown)),
                 (''total_cost'', JNum totalCost),
                 (''updated_at'', JTime tnow)]"
    by (simp add: doc_def rollup_document_def marshal_CostBreakdown_def fun_eq_iff)
  have 2: "calculateRealTimeCosts (Online tbl) now tnow cnow c
       = c\<lparr>entries := (entries c)(''costs:24h:by_provider'' \<mapsto> (Json doc, cnow + 5 * minute))\<rparr>"
    using c by (simp add: run redis_Set_def)
  have 3: "redis_Get (calculateRealTimeCosts (Online tbl) now tnow cnow c) t ''costs:24h:by_provider''
       = (if t < cnow + 5 * minute then Inr (Json doc) else Inl RedisNil)"
    using c by (simp add: 2 redis_Get_def)
  have 4: "distinct (map cb_Label breakdown)"
    unfolding breakdown_def breakdown_labels by (rule costs_query_providers)
  have 5: "set (map cb_Label breakdown) = provider ` set (trailing_window (24 * hour) now tbl)"
    unfolding breakdown_def breakdown_labels by (rule costs_query_providers)
  have 6: "\<forall>b \<in> set breakdown.
        cb_Cost b = float64 (sum_list (map cost (provider_records now tbl (cb_Label b)))) \<and>
        cb_RequestCount b = int (length (provider_records now tbl (cb_Label b))) \<and>
        cb_ErrorCount b
          = int (length (filter (\<lambda>r. 400 \<le> status_code r) (provider_records now tbl (cb_Label b))))"
    unfolding breakdown_def by (intro ballI conjI) (erule breakdown_items(1,2,4))+
  have 7: "sorted_wrt (\<ge>) (map cb_Cost breakdown)"
    unfolding breakdown_def by (rule breakdown_sorted)
  have 8: "trailing_window (24 * hour) now tbl = [] \<longrightarrow> breakdown = [] \<and> totalCost = 0"
    by (simp add: totalCost_def breakdown_def costs_query_empty_window)
  show ?thesis
    apply (rule exI [of _ breakdown], rule exI [of _ totalCost], rule exI [of _ doc])
    using 1 2 3 4 5 6 7 totalCost_def 8 by (intro conjI)
qed

theorem calculateRealTimeCosts_always_writes_witness:
  "reachable stale_cache \<and>
   redis_Get stale_cache demo_now ''costs:24h:by_provider''
     = Inr (Json (JObj [(''total_cost'', JNum 7)])) \<and>
   redis_Get (calculateRealTimeCosts (Online float_table) demo_now (demo_now + 1) (demo_now + 2) stale_cache)
     (demo_now + 3) ''costs:24h:by_provider''
     = Inr (Json (JObj [(''breakdown'',
                         JArr [JObj [(''label'', JStr ''OpenAI''),
                                     (''cost'', JNum (float64 (1 / 5))),
                                     (''request_count'', JNum 1), (''avg_latency'', JNum 120),
                                     (''error_count'', JNum 0)],
                               JObj [(''label'', JStr ''SendGrid''),
                                     (''cost'', JNum (float64 (1 / 10))),
                                     (''request_count'', JNum 1), (''avg_latency'', JNum 120),
                                     (''error_count'', JNum 0)]]),
                        (''total_cost'', JNum (float64 (float64 (1 / 5) + float64 (1 / 10)))),
                        (''updated_at'', JTime (demo_now + 1))])) \<and>
   (\<exists>breakdown :: CostBreakdown list.
      map cb_Label breakdown = [''OpenAI'', ''SendGrid''] \<and>
      map cb_Cost breakdown = [float64 (1 / 5), float64 (1 / 10)] \<and>
      entries (calculateRealTimeCosts (Online float_table) demo_now (demo_now + 1) (demo_now + 2) stale_cache)
          ''costs:24h:by_provider''
        = Some (Json (JObj [(''breakdown'',
                  JArr (map (\<lambda>b. JObj [(''label'', JStr (cb_Label b)),
                                        (''cost'', JNum (cb_Cost b)),
                                        (''request_count'', JNum (of_int (cb_RequestCount b))),
                                        (''avg_latency'', JNum (cb_AvgLatency b)),
                                        (''error_count'', JNum (of_int (cb_ErrorCount b)))])
                          breakdown)),
                 (''total_cost'', JNum (foldl (\<lambda>s x. float64 (s + x)) 0 (map cb_Cost breakdown))),
                 (''updated_at'', JTime (demo_now + 1))]), demo_now + 2 + 5 * minute)) \<and>
   redis_Get (calculateRealTimeCosts (Online []) demo_now (demo_now + 1) (demo_now + 2) stale_cache)
     (demo_now + 3) ''costs:24h:by_provider''
     = Inr (Json (JObj [(''breakdown'', JArr []), (''total_cost'', JNum 0),
                        (''updated_at'', JTime (demo_now + 1))]))"
proof -
  have lt: "demo_now + 3 < demo_now + 2 + 5 * minute"
    by (simp add: clock_defs)
  have ev: "redis_Get (calculateRealTimeCosts (Online float_table) demo_now (demo_now + 1) (demo_now + 2) stale_cache)
     (demo_now + 3) ''costs:24h:by_provider''
     = Inr (Json (JObj [(''breakdown'',
                         JArr [JObj [(''label'', JStr ''OpenAI''),
                                     (''cost'', JNum (float64 (1 / 5))),
                                     (''request_count'', JNum 1), (''avg_latency'', JNum 120),
                                     (''error_count'', JNum 0)],
                               JObj [(''label'', JStr ''SendGrid''),
                                     (''cost'', JNum (float64 (1 / 10))),
                                     (''request_count'', JNum 1), (''avg_latency'', JNum 120),
                                     (''error_count'', JNum 0)]]),
                        (''total_cost'', JNum (float64 (float64 (1 / 5) + float64 (1 / 10)))),
                        (''updated_at'', JTime (demo_now + 1))]))"
    using lt stale_cache_reachable
    by (simp add: float_rollup redis_Set_def redis_Get_def float64_fifth float64_tenth
          float64_sum_fifth_tenth)
  obtain breakdown :: "CostBreakdown list" and totalCost doc where
    doc: "doc = JObj [(''breakdown'',
                  JArr (map (\<lambda>b. JObj [(''label'', JStr (cb_Label b)),
                                        (''cost'', JNum (cb_Cost b)),
                                        (''request_count'', JNum (of_int (cb_RequestCount b))),
                                        (''avg_latency'', JNum (cb_AvgLatency b)),
                                        (''error_count'', JNum (of_int (cb_ErrorCount b)))])
                          breakdown)),
                 (''total_cost'', JNum totalCost),
                 (''updated_at'', JTime (demo_now + 1))]"
    and get: "redis_Get (calculateRealTimeCosts (Online float_table) demo_now (demo_now + 1) (demo_now + 2) stale_cache)
                (demo_now + 3) ''costs:24h:by_provider''
              = (if demo_now + 3 < demo_now + 2 + 5 * minute then Inr (Json doc) else Inl RedisNil)"
    and run: "calculateRealTimeCosts (Online float_table) demo_now (demo_now + 1) (demo_now + 2) stale_cache
       = stale_cache\<lparr>entries := (entries stale_cache)(''costs:24h:by_provider'' \<mapsto> (Json doc, demo_now + 2 + 5 * minute))\<rparr>"
    and total: "totalCost = foldl (\<lambda>s x. float64 (s + x)) 0 (map cb_Cost breakdown)"
    using calculateRealTimeCosts_always_writes
            [OF stale_cache_reachable, where tbl = float_table and now = demo_now
               and tnow = "demo_now + 1" and cnow = "demo_now + 2" and t = "demo_now + 3"]
    by blast
  from get lt ev have items:
    "map (\<lambda>b. JObj [(''label'', JStr (cb_Label b)),
                     (''cost'', JNum (cb_Cost b)),
                     (''request_count'', JNum (of_int (cb_RequestCount b))),
                     (''avg_latency'', JNum (cb_AvgLatency b)),
                     (''error_count'', JNum (of_int (cb_ErrorCount b)))]) breakdown
       = [JObj [(''label'', JStr ''OpenAI''),
                (''cost'', JNum (float64 (1 / 5))),
                (''request_count'', JNum 1), (''avg_latency'', JNum 120),
                (''error_count'', JNum 0)],
          JObj [(''label'', JStr ''SendGrid''),
                (''cost'', JNum (float64 (1 / 10))),
                (''request_count'', JNum 1), (''avg_latency'', JNum 120),
                (''error_count'', JNum 0)]]"
    by (simp add: doc)
  then obtain b1 b2 where b: "breakdown = [b1, b2]"
    by (auto simp: map_eq_Cons_conv)
  from items have labels: "map cb_Label breakdown = [''OpenAI'', ''SendGrid'']"
    and costs: "map cb_Cost breakdown = [float64 (1 / 5), float64 (1 / 10)]"
    unfolding b by simp_all
  have stored: "entries (calculateRealTimeCosts (Online float_table) demo_now (demo_now + 1) (demo_now + 2) stale_cache)
          ''costs:24h:by_provider''
        = Some (Json (JObj [(''breakdown'',
                  JArr (map (\<lambda>b. JObj [(''label'', JStr (cb_Label b)),
                                        (''cost'', JNum (cb_Cost b)),
                                        (''request_count'', JNum (of_int (cb_RequestCount b))),
                                        (''avg_latency'', JNum (cb_AvgLatency b)),
                                        (''error_count'', JNum (of_int (cb_ErrorCount b)))])
                          breakdown)),
                 (''total_cost'', JNum (foldl (\<lambda>s x. float64 (s + x)) 0 (map cb_Cost breakdown))),
                 (''updated_at'', JTime (demo_now + 1))]), demo_now + 2 + 5 * minute)"
    unfolding run total [symmetric] doc [symmetric] by simp
  have w: "trailing_window (24 * hour) demo_now [] = []"
    by (simp add: trailing_window_def)
  obtain breakdown' :: "CostBreakdown list" and totalCost' doc' where
    doc': "doc' = JObj [(''breakdown'',
                  JArr (map (\<lambda>b. JObj [(''label'', JStr (cb_Label b)),
                                        (''cost'', JNum (cb_Cost b)),
                                        (''request_count'', JNum (of_int (cb_RequestCount b))),
                                        (''avg_latency'', JNum (cb_AvgLatency b)),
                                        (''error_count'', JNum (of_int (cb_ErrorCount b)))])
                          breakdown')),
                 (''total_cost'', JNum totalCost'),
                 (''updated_at'', JTime (demo_now + 1))]"
    and get': "redis_Get (calculateRealTimeCosts (Online []) demo_now (demo_now + 1) (demo_now + 2) stale_cache)
                (demo_now + 3) ''costs:24h:by_provider''
              = (if demo_now + 3 < demo_now + 2 + 5 * minute then Inr (Json doc') else Inl RedisNil)"
    and empty: "trailing_window (24 * hour) demo_now [] = [] \<longrightarrow> breakdown' = [] \<and> totalCost' = 0"
    using calculateRealTimeCosts_always_writes
            [OF stale_cache_reachable, where tbl = "[]" and now = demo_now
               and tnow = "demo_now + 1" and cnow = "demo_now + 2" and t = "demo_now + 3"]
    by blast
  from empty w have "breakdown' = []" "totalCost' = 0"
    by blast+
  with get' lt doc' have none:
    "redis_Get (calculateRealTimeCosts (Online []) demo_now (demo_now + 1) (demo_now + 2) stale_cache)
       (demo_now + 3) ''costs:24h:by_provider''
     = Inr (Json (JObj [(''breakdown'', JArr []), (''total_cost'', JNum 0),
                        (''updated_at'', JTime (demo_now + 1))]))"
    by simp
  from labels costs stored have ex: "\<exists>breakdown :: CostBreakdown list.
      map cb_Label breakdown = [''OpenAI'', ''SendGrid''] \<and>
      map cb_Cost breakdown = [float64 (1 / 5), float64 (1 / 10)] \<and>
      entries (calculateRealTimeCosts (Online float_table) demo_now (demo_now + 1) (demo_now + 2) stale_cache)
          ''costs:24h:by_provider''
        = Some (Json (JObj [(''breakdown'',
                  JArr (map (\<lambda>b. JObj [(''label'', JStr (cb_Label b)),
                                        (''cost'', JNum (cb_Cost b)),
                                        (''request_count'', JNum (of_int (cb_RequestCount b))),
                                        (''avg_latency'', JNum (cb_AvgLatency b)),
                                        (''error_count'', JNum (of_int (cb_ErrorCount b)))])
                          breakdown)),
                 (''total_cost'', JNum (foldl (\<lambda>s x. float64 (s + x)) 0 (map cb_Cost breakdown))),
                 (''updated_at'', JTime (demo_now + 1))]), demo_now + 2 + 5 * minute)"
    by (intro exI [of _ breakdown] conjI)
  from stale_cache_reachable stale_cache_get(4) ev ex none show ?thesis
    by (intro conjI)
qed

text \<open>
  Claim C4, as the specification states it, fails in its equality of the total with the
  sum of the costs of the breakdown.  With one provider of cost 0.2 and one of cost 0.1 the
  breakdown holds the doubles nearest to 0.2 and to 0.1, which JSON prints as \<^verbatim>\<open>0.2\<close> and
  \<^verbatim>\<open>0.1\<close>, and the total is the double \<open>1351079888211149 / 2 ^ 52\<close>, which JSON prints as
  \<^verbatim>\<open>0.30000000000000004\<close>: it is not the sum of the two costs of the breakdown, nor the sum
  0.3 of the costs of the records, nor the double nearest to 0.3.
\<close>

theorem cost_rollup_total_counterexample:
  "redis_Get (calculateRealTimeCosts (Online float_table) demo_now demo_now demo_now empty_cache)
     demo_now ''costs:24h:by_provider''
     = Inr (Json (JObj [(''breakdown'',
                         JArr [JObj [(''label'', JStr ''OpenAI''),
                                     (''cost'', JNum (3602879701896397 / 18014398509481984)),
                                     (''request_count'', JNum 1), (''avg_latency'', JNum 120),
                                     (''error_count'', JNum 0)],
                               JObj [(''label'', JStr ''SendGrid''),
                                     (''cost'', JNum (3602879701896397 / 36028797018963968)),
                                     (''request_count'', JNum 1), (''avg_latency'', JNum 120),
                                     (''error_count'', JNum 0)]]),
                        (''total_cost'', JNum (1351079888211149 / 4503599627370496)),
                        (''updated_at'', JTime demo_now)])) \<and>
   float64 (2 / 10) = 3602879701896397 / 18014398509481984 \<and>
   float64 (1 / 10) = 3602879701896397 / 36028797018963968 \<and>
   (1351079888211149 / 4503599627370496 :: real)
     \<noteq> 3602879701896397 / 18014398509481984 + 3602879701896397 / 36028797018963968 \<and>
   (1351079888211149 / 4503599627370496 :: real) \<noteq> 2 / 10 + 1 / 10 \<and>
   (1351079888211149 / 4503599627370496 :: real) \<noteq> float64 (2 / 10 + 1 / 10) \<and>
   sum_list (map cost (trailing_window (24 * hour) demo_now float_table)) = 2 / 10 + 1 / 10"
proof -
  have run: "redis_Get (calculateRealTimeCosts (Online float_table) demo_now demo_now demo_now empty_cache)
     demo_now ''costs:24h:by_provider''
     = Inr (Json (JObj [(''breakdown'',
                         JArr [JObj [(''label'', JStr ''OpenAI''),
                                     (''cost'', JNum (3602879701896397 / 18014398509481984)),
                                     (''request_count'', JNum 1), (''avg_latency'', JNum 120),
                                     (''error_count'', JNum 0)],
                               JObj [(''label'', JStr ''SendGrid''),
                                     (''cost'', JNum (3602879701896397 / 36028797018963968)),
                                     (''request_count'', JNum 1), (''avg_latency'', JNum 120),
                                     (''error_count'', JNum 0)]]),
                        (''total_cost'', JNum (1351079888211149 / 4503599627370496)),
                        (''updated_at'', JTime demo_now)]))"
    by (simp add: float_rollup redis_Set_def redis_Get_def empty_cache_def clock_defs)
  have costs: "sum_list (map cost (trailing_window (24 * hour) demo_now float_table)) = 2 / 10 + 1 / 10"
    by (simp add: trailing_window_def float_table_def call_def demo_now_def clock_defs)
  have numbers: "float64 (2 / 10) = 3602879701896397 / 18014398509481984"
    "float64 (1 / 10) = 3602879701896397 / 36028797018963968"
    "(1351079888211149 / 4503599627370496 :: real)
       \<noteq> 3602879701896397 / 18014398509481984 + 3602879701896397 / 36028797018963968"
    "(1351079888211149 / 4503599627370496 :: real) \<noteq> 2 / 10 + 1 / 10"
    "(1351079888211149 / 4503599627370496 :: real) \<noteq> float64 (2 / 10 + 1 / 10)"
    by (simp_all add: float64_fifth float64_tenth float64_three_tenths)
  from run numbers costs show ?thesis
    by (intro conjI)
qed

text \<open>
  Claim C5, as the code has it.  The rollup run touches the cache through one SET only: it
  stores its artifact (when the query succeeds and the cache is reachable), and the list of
  published messages is the same after the run as before it, on every channel.
\<close>

theorem calculateRealTimeCosts_publishes_nothing:
  "published (calculateRealTimeCosts db now tnow cnow c) = published c \<and>
   (reachable c \<longrightarrow>
      entries (calculateRealTimeCosts (Online tbl) now tnow cnow c) ''costs:24h:by_provider''
        = Some (Json (rollup_document (map scan_CostBreakdown (costs_query now tbl))
                        (foldl fadd 0 (map cb_Cost (map scan_CostBreakdown (costs_query now tbl)))) tnow),
                cnow + 5 * minute))"
proof -
  have f: "fadd = (\<lambda>s x. float64 (s + x))"
    by (simp add: fun_eq_iff fadd_def)
  show ?thesis
    by (cases db)
       (simp_all add: f calculateRealTimeCosts_Online job_Unavailable published_redis_Set redis_Set_def)
qed

theorem calculateRealTimeCosts_publishes_nothing_witness:
  "reachable stale_cache \<and>
   published (calculateRealTimeCosts (Online demo_table) demo_now demo_now demo_now stale_cache) = [] \<and>
   entries (calculateRealTimeCosts (Online demo_table) demo_now demo_now demo_now stale_cache)
     ''costs:24h:by_provider''
     = Some (Json (rollup_document (map scan_CostBreakdown (costs_query demo_now demo_table)) 22 demo_now),
             demo_now + 5 * minute)"
  using calculateRealTimeCosts_publishes_nothing
          [of "Online demo_table" demo_now demo_now demo_now stale_cache demo_table]
        stale_cache_reachable
  by (simp add: stale_cache_def demo_costs_query scan_CostBreakdown_def fadd_def)

text \<open>
  Claim C5, as the specification states it, fails: a successful run over the example table
  writes its artifact and leaves the publish/subscribe channel without any message.
\<close>

theorem cost_rollup_notification_counterexample:
  "redis_Get (calculateRealTimeCosts (Online demo_table) demo_now demo_now demo_now empty_cache)
     demo_now ''costs:24h:by_provider''
     = Inr (Json (JObj [(''breakdown'',
                         JArr [JObj [(''label'', JStr ''OpenAI''), (''cost'', JNum 22),
                                     (''request_count'', JNum 12), (''avg_latency'', JNum 120),
                                     (''error_count'', JNum 0)]]),
                        (''total_cost'', JNum 22), (''updated_at'', JTime demo_now)])) \<and>
   published (calculateRealTimeCosts (Online demo_table) demo_now demo_now demo_now empty_cache) = []"
  by (simp add: calculateRealTimeCosts_Online demo_costs_query redis_Set_def redis_Get_def
        empty_cache_def rollup_document_def marshal_CostBreakdown_def scan_CostBreakdown_def clock_defs)

section \<open>The gateway's initial snapshot\<close>

lemma stream_loop_extends:
  "\<exists>rest. fst (stream_loop wr cases trace) = trace @ rest \<and>
     (\<forall>m \<in> set rest. fst m = JObj [(''type'', JStr ''ping'')] \<or>
        (\<exists>p. Message p \<in> set cases \<and> Unmarshal_map p = Some (fst m)))"
proof (induction wr cases trace rule: stream_loop.induct)
  case (1 wr trace)
  then show ?case by simp
next
  case (2 wr cases trace)
  then show ?case by simp
next
  case (3 wr payload cases trace)
  show ?case
  proof (cases "Unmarshal_map payload")
    case None
    with 3(1) show ?thesis by fastforce
  next
    case (Some event)
    show ?thesis
    proof (cases "wr (length trace)")
      case True
      from 3(2) [OF Some True] obtain rest where
        r: "fst (stream_loop wr cases (trace @ [(event, True)])) = (trace @ [(event, True)]) @ rest"
        and m: "\<forall>m \<in> set rest. fst m = JObj [(''type'', JStr ''ping'')] \<or>
                  (\<exists>p. Message p \<in> set cases \<and> Unmarshal_map p = Some (fst m))"
        by blast
      have "fst (stream_loop wr (Message payload # cases) trace) = trace @ ((event, True) # rest)"
        using r Some True by simp
      moreover have "\<forall>m \<in> set ((event, True) # rest). fst m = JObj [(''type'', JStr ''ping'')] \<or>
                  (\<exists>p. Message p \<in> set (Message payload # cases) \<and> Unmarshal_map p = Some (fst m))"
        using m Some by auto
      ultimately show ?thesis by blast
    next
      case False
      have "fst (stream_loop wr (Message payload # cases) trace) = trace @ [(event, False)]"
        using Some False by simp
      moreover have "\<forall>m \<in> set [(event, False)]. fst m = JObj [(''type'', JStr ''ping'')] \<or>
                  (\<exists>p. Message p \<in> set (Message payload # cases) \<and> Unmarshal_map p = Some (fst m))"
        using Some by auto
      ultimately show ?thesis by blast
    qed
  qed
next
  case (4 wr cases trace)
  show ?case
  proof (cases "wr (length trace)")
    case True
    from 4(1) [OF True] obtain rest where
      r: "fst (stream_loop wr cases (trace @ [(JObj [(''type'', JStr ''ping'')], True)]))
            = (trace @ [(JObj [(''type'', JStr ''ping'')], True)]) @ rest"
      and m: "\<forall>m \<in> set rest. fst m = JObj [(''type'', JStr ''ping'')] \<or>
                (\<exists>p. Message p \<in> set cases \<and> Unmarshal_map p = Some (fst m))"
      by blast
    have "fst (stream_loop wr (Tick # cases) trace) = trace @ ((JObj [(''type'', JStr ''ping'')], True) # rest)"
      using r True by simp
    moreover have "\<forall>m \<in> set ((JObj [(''type'', JStr ''ping'')], True) # rest). fst m = JObj [(''type'', JStr ''ping'')] \<or>
                (\<exists>p. Message p \<in> set (Tick # cases) \<and> Unmarshal_map p = Some (fst m))"
      using m by auto
    ultimately show ?thesis by blast
  next
    case False
    then show ?thesis by simp
  qed
qed

lemma getRedisData_costs:
  "getRedisData c cnow ''costs:24h:by_provider'' =
     (case redis_Get c cnow ''costs:24h:by_provider'' of
        Inl err \<Rightarrow> JObj [(''breakdown'', JArr []), (''total_cost'', JNum 0)]
      | Inr (Json j) \<Rightarrow> j
      | Inr (Malformed s) \<Rightarrow> JArr [])"
  by (simp add: getRedisData_def Unmarshal_def split: sum.splits bytes.splits)

text \<open>
  Claim C9.  On a connection that was upgraded, the first \<^verbatim>\<open>WriteJSON\<close> call carries the
  snapshot message \<^verbatim>\<open>{type: "initial_data", data, timestamp}\<close>, with the Unix seconds of
  \<^verbatim>\<open>time.Now()\<close> as timestamp.  Its data is the cached cost rollup when the key is present
  and not expired, and the default with an empty breakdown and total 0 when the key is absent
  or expired.  When that first write fails nothing else is written and the handler returns
  (the connection is closed); otherwise every later write is a ping or an event forwarded
  from the channel, so the gateway itself builds the snapshot message once.
\<close>

theorem handleWebSocket_initial_snapshot:
  "\<exists>rest ph.
     handleWebSocket True c cnow tnow wr cases = ((getInitialData c cnow tnow, wr 0) # rest, ph) \<and>
     (\<not> wr 0 \<longrightarrow> rest = [] \<and> ph = Closed) \<and>
     (\<forall>m \<in> set rest. fst m = JObj [(''type'', JStr ''ping'')] \<or>
        (\<exists>p. Message p \<in> set cases \<and> Unmarshal_map p = Some (fst m))) \<and>
     (\<exists>snapshot.
        getInitialData c cnow tnow
          = JObj [(''type'', JStr ''initial_data''), (''data'', snapshot),
                  (''timestamp'', JNum (of_int (tnow div second)))] \<and>
        (\<forall>j expires. reachable c \<and> entries c ''costs:24h:by_provider'' = Some (Json j, expires) \<and> cnow < expires
            \<longrightarrow> snapshot = j) \<and>
        (entries c ''costs:24h:by_provider'' = None \<or>
         (\<exists>v expires. entries c ''costs:24h:by_provider'' = Some (v, expires) \<and> expires \<le> cnow)
            \<longrightarrow> snapshot = JObj [(''breakdown'', JArr []), (''total_cost'', JNum 0)]))"
proof -
  let ?summary = "getInitialData c cnow tnow"
  let ?ok = "\<lambda>rest. \<forall>m \<in> set rest. fst m = JObj [(''type'', JStr ''ping'')] \<or>
        (\<exists>p. Message p \<in> set cases \<and> Unmarshal_map p = Some (fst m))"
  have first: "\<exists>rest ph. handleWebSocket True c cnow tnow wr cases = ((?summary, wr 0) # rest, ph) \<and>
                 (\<not> wr 0 \<longrightarrow> rest = [] \<and> ph = Closed) \<and> ?ok rest"
  proof (cases "wr 0")
    case False
    then have "handleWebSocket True c cnow tnow wr cases = ((?summary, wr 0) # [], Closed)"
      by (simp add: handleWebSocket_def)
    then show ?thesis using False by auto
  next
    case True
    obtain rest where r: "fst (stream_loop wr cases [(?summary, True)]) = [(?summary, True)] @ rest"
      and m: "?ok rest"
      using stream_loop_extends [of wr cases "[(?summary, True)]"] by blast
    have "handleWebSocket True c cnow tnow wr cases
            = ((?summary, wr 0) # rest, snd (stream_loop wr cases [(?summary, True)]))"
      using True r by (simp add: handleWebSocket_def prod_eq_iff)
    then show ?thesis using True m by blast
  qed
  have data: "\<exists>snapshot.
        ?summary = JObj [(''type'', JStr ''initial_data''), (''data'', snapshot),
                  (''timestamp'', JNum (of_int (tnow div second)))] \<and>
        (\<forall>j expires. reachable c \<and> entries c ''costs:24h:by_provider'' = Some (Json j, expires) \<and> cnow < expires
            \<longrightarrow> snapshot = j) \<and>
        (entries c ''costs:24h:by_provider'' = None \<or>
         (\<exists>v expires. entries c ''costs:24h:by_provider'' = Some (v, expires) \<and> expires \<le> cnow)
            \<longrightarrow> snapshot = JObj [(''breakdown'', JArr []), (''total_cost'', JNum 0)])"
    apply (rule exI [of _ "getRedisData c cnow ''costs:24h:by_provider''"])
    apply (auto simp add: getInitialData_def getRedisData_costs redis_Get_def)
    done
  from first data show ?thesis by blast
qed

theorem handleWebSocket_initial_snapshot_witness:
  "handleWebSocket True stale_cache (12 * hour) (12 * hour) (\<lambda>n. False) [Tick]
     = ([(JObj [(''type'', JStr ''initial_data''),
                (''data'', JObj [(''breakdown'', JArr []), (''total_cost'', JNum 0)]),
                (''timestamp'', JNum 43200)], False)], Closed)"
proof -
  obtain rest ph snapshot where
    run: "handleWebSocket True stale_cache (12 * hour) (12 * hour) (\<lambda>n. False) [Tick]
            = ((getInitialData stale_cache (12 * hour) (12 * hour), False) # rest, ph)"
    and closed: "rest = [] \<and> ph = Closed"
    and msg: "getInitialData stale_cache (12 * hour) (12 * hour)
                = JObj [(''type'', JStr ''initial_data''), (''data'', snapshot),
                        (''timestamp'', JNum (of_int ((12 * hour) div second)))]"
    and expired: "entries stale_cache ''costs:24h:by_provider'' = None \<or>
         (\<exists>v expires. entries stale_cache ''costs:24h:by_provider'' = Some (v, expires) \<and>
            expires \<le> 12 * hour)
         \<longrightarrow> snapshot = JObj [(''breakdown'', JArr []), (''total_cost'', JNum 0)]"
    using handleWebSocket_initial_snapshot
            [of stale_cache "12 * hour" "12 * hour" "\<lambda>n. False" "[Tick]"]
    by auto
  have "entries stale_cache ''costs:24h:by_provider''
          = Some (Json (JObj [(''total_cost'', JNum 7)]), 12 * hour)"
    by (simp add: stale_cache_def)
  with expired have "snapshot = JObj [(''breakdown'', JArr []), (''total_cost'', JNum 0)]"
    by simp
  moreover have "(12 * hour) div second = 43200"
    by (simp add: clock_defs)
  ultimately show ?thesis
    using run closed msg by simp
qed

section \<open>Duplicate detection\<close>

lemma group_by_keys: "map fst (group_by key rows) = remdups (map key rows)"
  by (simp add: group_by_def comp_def)

lemma group_by_mem:
  "(k, g) \<in> set (group_by key rows) \<longleftrightarrow> k \<in> key ` set rows \<and> g = filter (\<lambda>r. key r = k) rows"
  by (auto simp: group_by_def)

lemma sorted_desc_take_order_by:
  "sorted_wrt (\<ge>) (map f (take n (order_by_desc f rows)))"
proof -
  have "sorted_wrt (\<lambda>a b. f a \<ge> f b) (take n (order_by_desc f rows))"
    using order_by_desc_sorted [of f rows] by (rule sorted_wrt_take)
  then show ?thesis by (simp add: sorted_wrt_map)
qed

text \<open>The SQL expression of the hash is the fingerprint of the glossary.\<close>

lemma request_hash_fingerprint: "request_hash md5 r = fingerprint md5 r"
  by (simp add: request_hash_def fingerprint_def serialized_metadata_def)

lemma duplicate_group_members:
  "filter (\<lambda>r. duplicate_key md5 r = (org, fp, ep)) (filter (\<lambda>r. time r > now - 1 * hour) tbl)
     = duplicate_members md5 now tbl org ep fp"
  unfolding duplicate_members_def trailing_window_def duplicate_key_def request_hash_fingerprint
  by (rule filter_cong) auto

lemma duplicates_query_rows:
  assumes "row \<in> set (duplicates_query md5 now tbl)"
  shows "dr_duplicate_count row = int (length (duplicate_members md5 now tbl (dr_organization_id row) (dr_endpoint row) (dr_request_hash row)))"
    and "1 < length (duplicate_members md5 now tbl (dr_organization_id row) (dr_endpoint row) (dr_request_hash row))"
    and "dr_total_cost row = sum_list (map cost (duplicate_members md5 now tbl (dr_organization_id row) (dr_endpoint row) (dr_request_hash row)))"
    and "dr_first_seen row = Min (set (map time (duplicate_members md5 now tbl (dr_organization_id row) (dr_endpoint row) (dr_request_hash row))))"
    and "dr_last_seen row = Max (set (map time (duplicate_members md5 now tbl (dr_organization_id row) (dr_endpoint row) (dr_request_hash row))))"
proof -
  let ?W = "filter (\<lambda>r. time r > now - 1 * hour) tbl"
  from assms have "row \<in> set (order_by_desc dr_total_cost
        (map duplicate_row (filter (\<lambda>kg. length (snd kg) > 1) (group_by (duplicate_key md5) ?W))))"
    by (auto simp: duplicates_query_def Let_def dest: in_set_takeD)
  then obtain kg where kg: "kg \<in> set (group_by (duplicate_key md5) ?W)" "1 < length (snd kg)"
    and row: "row = duplicate_row kg"
    by (auto simp: set_order_by_desc)
  obtain org fp ep g where kg_eq: "kg = ((org, fp, ep), g)"
    by (metis prod_cases3 surj_pair)
  from kg(1) [unfolded kg_eq group_by_mem]
  have "g = filter (\<lambda>r. duplicate_key md5 r = (org, fp, ep)) ?W"
    by blast
  then have g: "g = duplicate_members md5 now tbl org ep fp"
    by (simp only: duplicate_group_members)
  show "dr_duplicate_count row = int (length (duplicate_members md5 now tbl (dr_organization_id row) (dr_endpoint row) (dr_request_hash row)))"
    and "1 < length (duplicate_members md5 now tbl (dr_organization_id row) (dr_endpoint row) (dr_request_hash row))"
    and "dr_total_cost row = sum_list (map cost (duplicate_members md5 now tbl (dr_organization_id row) (dr_endpoint row) (dr_request_hash row)))"
    and "dr_first_seen row = Min (set (map time (duplicate_members md5 now tbl (dr_organization_id row) (dr_endpoint row) (dr_request_hash row))))"
    and "dr_last_seen row = Max (set (map time (duplicate_members md5 now tbl (dr_organization_id row) (dr_endpoint row) (dr_request_hash row))))"
    using kg(2) by (simp_all add: row kg_eq duplicate_row_def g sql_SUM_def)
qed

lemma dg_Cost_scan:
  "map dg_Cost (map scan_DuplicateGroup rows) = map (\<lambda>r. float64 (dr_total_cost r)) rows"
  by (induction rows) (simp_all add: scan_DuplicateGroup_def)

lemma detectDuplicates_Online:
  "detectDuplicates md5 (Online tbl) now cnow c =
     (if duplicates_query md5 now tbl = [] then c
      else redis_Set c cnow ''analytics:duplicates''
             (Json (JArr (map marshal_DuplicateGroup (map scan_DuplicateGroup (duplicates_query md5 now tbl)))))
             (10 * minute))"
  by (simp add: detectDuplicates_def QueryContext_def)

lemma emitted_duplicate_group:
  assumes row: "row \<in> set (duplicates_query md5 now tbl)" and d: "d = scan_DuplicateGroup row"
  shows "\<exists>org fp.
        dg_Count d = int (length (duplicate_members md5 now tbl org (dg_Endpoint d) fp)) \<and>
        1 < dg_Count d \<and>
        dg_Cost d = float64 (sum_list (map cost (duplicate_members md5 now tbl org (dg_Endpoint d) fp))) \<and>
        dg_FirstSeen d = Min (set (map time (duplicate_members md5 now tbl org (dg_Endpoint d) fp))) \<and>
        dg_LastSeen d = Max (set (map time (duplicate_members md5 now tbl org (dg_Endpoint d) fp)))"
proof -
  let ?m = "duplicate_members md5 now tbl (dr_organization_id row) (dg_Endpoint d) (dr_request_hash row)"
  have ep: "dr_endpoint row = dg_Endpoint d"
    by (simp add: d scan_DuplicateGroup_def)
  note q = duplicates_query_rows [OF row, unfolded ep]
  have count: "dg_Count d = int (length ?m)"
    using q(1) by (simp add: d scan_DuplicateGroup_def)
  have many: "1 < dg_Count d"
    using q(2) count by simp
  have cost: "dg_Cost d = float64 (sum_list (map cost ?m))"
    using q(3) by (simp add: d scan_DuplicateGroup_def)
  have first: "dg_FirstSeen d = Min (set (map time ?m))"
    using q(4) by (simp add: d scan_DuplicateGroup_def)
  have last: "dg_LastSeen d = Max (set (map time ?m))"
    using q(5) by (simp add: d scan_DuplicateGroup_def)
  have "dg_Count d = int (length ?m) \<and> 1 < dg_Count d \<and> dg_Cost d = float64 (sum_list (map cost ?m)) \<and>
        dg_FirstSeen d = Min (set (map time ?m)) \<and> dg_LastSeen d = Max (set (map time ?m))"
    using count many cost first last by (intro conjI)
  then show ?thesis
    by (intro exI)
qed

lemma duplicates_query_eq:
  "duplicates_query md5 now tbl =
     take 100 (order_by_desc dr_total_cost
       (map (\<lambda>k. duplicate_row (k, filter (\<lambda>r. duplicate_key md5 r = k) (filter (\<lambda>r. time r > now - 1 * hour) tbl)))
          (filter (\<lambda>k. 1 < length (filter (\<lambda>r. duplicate_key md5 r = k) (filter (\<lambda>r. time r > now - 1 * hour) tbl)))
             (remdups (map (duplicate_key md5) (filter (\<lambda>r. time r > now - 1 * hour) tbl))))))"
  by (simp add: duplicates_query_def Let_def group_by_def filter_map comp_def)

text \<open>
  The rows of the query before its LIMIT, by key: one row for each key with more than one
  member, ordered by summed cost.
\<close>

lemma duplicate_candidates:
  "\<exists>keys. distinct keys \<and>
      set keys = {(org, ep, fp). 1 < length (duplicate_members md5 now tbl org ep fp)} \<and>
      sorted_wrt (\<ge>) (map (\<lambda>(org, ep, fp). sum_list (map cost (duplicate_members md5 now tbl org ep fp))) keys) \<and>
      map scan_DuplicateGroup (duplicates_query md5 now tbl) = take 100 (map (duplicate_group md5 now tbl) keys)"
proof -
  define W where "W = filter (\<lambda>r. time r > now - 1 * hour) tbl"
  define K where "K = filter (\<lambda>k. 1 < length (filter (\<lambda>r. duplicate_key md5 r = k) W))
                        (remdups (map (duplicate_key md5) W))"
  define R where "R = (\<lambda>k. duplicate_row (k, filter (\<lambda>r. duplicate_key md5 r = k) W))"
  define all where "all = order_by_desc dr_total_cost (map R K)"
  define keyf where "keyf = (\<lambda>row :: DuplicateRow. (dr_organization_id row, dr_endpoint row, dr_request_hash row))"
  define sw where "sw = (\<lambda>k :: int \<times> string \<times> string. (fst k, snd (snd k), fst (snd k)))"
  define total where "total = (\<lambda>(org, ep, fp). sum_list (map cost (duplicate_members md5 now tbl org ep fp)))"
  have q: "duplicates_query md5 now tbl = take 100 all"
    by (simp add: duplicates_query_eq all_def R_def K_def W_def)
  have members: "filter (\<lambda>r. duplicate_key md5 r = (org, fp, ep)) W = duplicate_members md5 now tbl org ep fp"
    for org fp ep
    unfolding W_def by (rule duplicate_group_members)
  have keyf_R: "keyf (R k) = sw k" for k
    by (cases k) (simp add: keyf_def R_def sw_def duplicate_row_def)
  have total_R: "dr_total_cost (R k) = total (sw k)" for k
    by (cases k) (simp add: R_def sw_def total_def duplicate_row_def sql_SUM_def members)
  have R_eq: "R (org, fp, ep) = duplicate_row ((org, fp, ep), duplicate_members md5 now tbl org ep fp)"
    for org fp ep
    unfolding R_def members ..
  have scan_R: "scan_DuplicateGroup (R k) = duplicate_group md5 now tbl (sw k)" for k
    by (cases k)
       (simp add: R_eq sw_def scan_DuplicateGroup_def duplicate_row_def duplicate_group_def sql_SUM_def)
  have rows: "\<exists>k. row = R k" if "row \<in> set all" for row
    using that by (auto simp: all_def set_order_by_desc)
  have keys_R: "map keyf (map R ks) = map sw ks" for ks
    by (induction ks) (simp_all add: keyf_R)
  have inj_sw: "inj sw"
    by (auto simp: inj_def sw_def prod_eq_iff)
  have "distinct K"
    by (simp add: K_def)
  moreover have "inj_on sw (set K)"
    using inj_sw by (rule inj_on_subset) simp
  ultimately have "distinct (map sw K)"
    by (simp add: distinct_map)
  then have dist: "distinct (map keyf all)"
    unfolding all_def distinct_map_order_by_desc keys_R .
  have "set (map keyf all) = set (map keyf (map R K))"
    unfolding all_def by (simp only: set_map set_order_by_desc)
  then have set_keys: "set (map keyf all) = sw ` set K"
    unfolding keys_R by simp
  have "sw ` set K = {(org, ep, fp). 1 < length (duplicate_members md5 now tbl org ep fp)}"
  proof (intro set_eqI iffI)
    fix x assume "x \<in> sw ` set K"
    then obtain org fp ep where k: "(org, fp, ep) \<in> set K" and x: "x = sw (org, fp, ep)"
      by (auto simp: image_iff)
    from k have "1 < length (duplicate_members md5 now tbl org ep fp)"
      by (simp add: K_def members)
    then show "x \<in> {(org, ep, fp). 1 < length (duplicate_members md5 now tbl org ep fp)}"
      by (simp add: x sw_def)
  next
    fix x assume "x \<in> {(org, ep, fp). 1 < length (duplicate_members md5 now tbl org ep fp)}"
    then obtain org ep fp where x: "x = (org, ep, fp)"
      and many: "1 < length (duplicate_members md5 now tbl org ep fp)"
      by auto
    from many have many': "1 < length (filter (\<lambda>r. duplicate_key md5 r = (org, fp, ep)) W)"
      by (simp only: members)
    then have "filter (\<lambda>r. duplicate_key md5 r = (org, fp, ep)) W \<noteq> []"
      by auto
    then obtain r where "r \<in> set W" "duplicate_key md5 r = (org, fp, ep)"
      by (auto simp: filter_empty_conv)
    then have "(org, fp, ep) \<in> set (remdups (map (duplicate_key md5) W))"
      by (auto simp: image_iff) metis
    with many' have "(org, fp, ep) \<in> set K"
      by (simp add: K_def)
    moreover have "x = sw (org, fp, ep)"
      by (simp add: x sw_def)
    ultimately show "x \<in> sw ` set K"
      by blast
  qed
  with set_keys have keys: "set (map keyf all) = {(org, ep, fp). 1 < length (duplicate_members md5 now tbl org ep fp)}"
    by simp
  have row_total: "total (keyf row) = dr_total_cost row" if "row \<in> set all" for row
  proof -
    from rows [OF that] obtain k where "row = R k" ..
    then show ?thesis by (simp add: keyf_R total_R)
  qed
  have row_scan: "scan_DuplicateGroup row = duplicate_group md5 now tbl (keyf row)" if "row \<in> set all" for row
  proof -
    from rows [OF that] obtain k where "row = R k" ..
    then show ?thesis by (simp add: keyf_R scan_R)
  qed
  have totals: "map total (map keyf all) = map dr_total_cost all"
    by (simp add: row_total)
  have "sorted_wrt (\<ge>) (map dr_total_cost all)"
    using order_by_desc_sorted [of dr_total_cost "map R K"] by (simp add: all_def sorted_wrt_map)
  then have srt: "sorted_wrt (\<ge>) (map total (map keyf all))"
    by (simp only: totals)
  have scans: "map scan_DuplicateGroup all = map (duplicate_group md5 now tbl) (map keyf all)"
    by (simp add: row_scan)
  have "map scan_DuplicateGroup (duplicates_query md5 now tbl) = take 100 (map scan_DuplicateGroup all)"
    unfolding q by (rule take_map [symmetric])
  then have emitted: "map scan_DuplicateGroup (duplicates_query md5 now tbl)
                        = take 100 (map (duplicate_group md5 now tbl) (map keyf all))"
    by (simp only: scans)
  from dist keys srt emitted show ?thesis
    unfolding total_def by (intro exI [of _ "map keyf all"] conjI)
qed

lemma mixed_duplicates:
  "duplicates_query id demo_now mixed_table =
     [\<lparr>dr_organization_id = 1,
       dr_request_hash = ''/v1/chat'' @ ''GET'' @ ''{'' @ [CHR 0x22] @ ''id'' @ [CHR 0x22] @ '': ''
                           @ [CHR 0x22] @ ''1'' @ [CHR 0x22] @ ''}'',
       dr_endpoint = ''/v1/chat'',
       dr_duplicate_count = 2, dr_total_cost = 12,
       dr_first_seen = 36300000000, dr_last_seen = 38100000000\<rparr>]"
  by (simp add: duplicates_query_def mixed_table_def demo_now_def call_def request_meta_def clock_defs
      group_by_def duplicate_row_def duplicate_key_def request_hash_def sql_SUM_def order_by_desc_def)

lemma mixed_members:
  "duplicate_members id demo_now mixed_table 1 ''/v1/chat''
     (''/v1/chat'' @ ''GET'' @ ''{'' @ [CHR 0x22] @ ''id'' @ [CHR 0x22] @ '': ''
        @ [CHR 0x22] @ ''1'' @ [CHR 0x22] @ ''}'')
     = [call (10 * hour + 5 * minute) ''OpenAI'' ''GET'' 6 ''1'',
        call (10 * hour + 35 * minute) ''OpenAI'' ''GET'' 6 ''1'']"
  by (simp add: duplicate_members_def trailing_window_def fingerprint_def serialized_metadata_def
      mixed_table_def demo_now_def call_def request_meta_def clock_defs)

text \<open>
  Claim C3.  Take the keys (organization, endpoint, fingerprint) that more than one record
  of the last hour shares (the members of the key), each key once, by summed cost of the
  members, largest first: the list that \<open>detectDuplicates\<close> emits is made of the groups of
  the first 100 of them.  So every emitted group stands for the members of one key: its
  count is their number and exceeds 1, its cost is the double nearest to their summed cost,
  its first and last timestamps are theirs.  The hash of the query is stable: it is the
  same for two records with the same endpoint, method and metadata; and when the hash
  function has no collisions, two records have the same hash exactly when the texts of
  endpoint, method and serialized metadata, put one after the other, are the same.  The
  list is ordered by cost, largest first, has at most 100 groups, and when it is not empty
  and the cache is reachable it is stored under \<^verbatim>\<open>analytics:duplicates\<close>, expiring 10
  minutes after the write.
\<close>

theorem detectDuplicates_artifact:
  "(\<exists>keys. distinct keys \<and>
      set keys = {(org, ep, fp). 1 < length (duplicate_members md5 now tbl org ep fp)} \<and>
      sorted_wrt (\<ge>) (map (\<lambda>(org, ep, fp). sum_list (map cost (duplicate_members md5 now tbl org ep fp))) keys) \<and>
      map scan_DuplicateGroup (duplicates_query md5 now tbl) = take 100 (map (duplicate_group md5 now tbl) keys)) \<and>
   (\<forall>d \<in> set (map scan_DuplicateGroup (duplicates_query md5 now tbl)).
      \<exists>org fp.
        dg_Count d = int (length (duplicate_members md5 now tbl org (dg_Endpoint d) fp)) \<and>
        1 < dg_Count d \<and>
        dg_Cost d = float64 (sum_list (map cost (duplicate_members md5 now tbl org (dg_Endpoint d) fp))) \<and>
        dg_FirstSeen d = Min (set (map time (duplicate_members md5 now tbl org (dg_Endpoint d) fp))) \<and>
        dg_LastSeen d = Max (set (map time (duplicate_members md5 now tbl org (dg_Endpoint d) fp)))) \<and>
   (\<forall>r r'. endpoint r = endpoint r' \<and> http_method r = http_method r' \<and> metadata r = metadata r'
       \<longrightarrow> request_hash md5 r = request_hash md5 r') \<and>
   (inj md5 \<longrightarrow>
      (\<forall>r r'. request_hash md5 r = request_hash md5 r' \<longleftrightarrow>
                 endpoint r @ http_method r @ serialized_metadata r
                   = endpoint r' @ http_method r' @ serialized_metadata r')) \<and>
   sorted_wrt (\<ge>) (map dg_Cost (map scan_DuplicateGroup (duplicates_query md5 now tbl))) \<and>
   length (map scan_DuplicateGroup (duplicates_query md5 now tbl)) \<le> 100 \<and>
   (reachable c \<and> duplicates_query md5 now tbl \<noteq> [] \<longrightarrow>
      entries (detectDuplicates md5 (Online tbl) now cnow c) ''analytics:duplicates''
        = Some (Json (JArr (map (\<lambda>d. JObj [(''endpoint'', JStr (dg_Endpoint d)),
                                             (''count'', JNum (of_int (dg_Count d))),
                                             (''cost'', JNum (dg_Cost d)),
                                             (''first_seen'', JTime (dg_FirstSeen d)),
                                             (''last_seen'', JTime (dg_LastSeen d))])
                              (map scan_DuplicateGroup (duplicates_query md5 now tbl)))),
                cnow + 10 * minute))"
proof (intro conjI ballI allI impI)
  show "\<exists>keys. distinct keys \<and>
      set keys = {(org, ep, fp). 1 < length (duplicate_members md5 now tbl org ep fp)} \<and>
      sorted_wrt (\<ge>) (map (\<lambda>(org, ep, fp). sum_list (map cost (duplicate_members md5 now tbl org ep fp))) keys) \<and>
      map scan_DuplicateGroup (duplicates_query md5 now tbl) = take 100 (map (duplicate_group md5 now tbl) keys)"
    by (rule duplicate_candidates)
next
  fix d assume "d \<in> set (map scan_DuplicateGroup (duplicates_query md5 now tbl))"
  then obtain row where row: "row \<in> set (duplicates_query md5 now tbl)" and d: "d = scan_DuplicateGroup row"
    by auto
  then show "\<exists>org fp.
        dg_Count d = int (length (duplicate_members md5 now tbl org (dg_Endpoint d) fp)) \<and>
        1 < dg_Count d \<and>
        dg_Cost d = float64 (sum_list (map cost (duplicate_members md5 now tbl org (dg_Endpoint d) fp))) \<and>
        dg_FirstSeen d = Min (set (map time (duplicate_members md5 now tbl org (dg_Endpoint d) fp))) \<and>
        dg_LastSeen d = Max (set (map time (duplicate_members md5 now tbl org (dg_Endpoint d) fp)))"
    by (rule emitted_duplicate_group)
next
  fix r r' :: UsageRecord
  assume "endpoint r = endpoint r' \<and> http_method r = http_method r' \<and> metadata r = metadata r'"
  then show "request_hash md5 r = request_hash md5 r'"
    by (simp add: request_hash_def)
next
  fix r r' :: UsageRecord
  assume "inj md5"
  then show "request_hash md5 r = request_hash md5 r' \<longleftrightarrow>
                 endpoint r @ http_method r @ serialized_metadata r
                   = endpoint r' @ http_method r' @ serialized_metadata r'"
    unfolding request_hash_def serialized_metadata_def by (rule inj_eq)
next
  show "sorted_wrt (\<ge>) (map dg_Cost (map scan_DuplicateGroup (duplicates_query md5 now tbl)))"
    unfolding dg_Cost_scan duplicates_query_def Let_def
    by (rule sorted_float64 [OF sorted_wrt_take [OF order_by_desc_sorted]])
next
  show "length (map scan_DuplicateGroup (duplicates_query md5 now tbl)) \<le> 100"
    by (simp add: duplicates_query_def Let_def)
next
  assume "reachable c \<and> duplicates_query md5 now tbl \<noteq> []"
  then show "entries (detectDuplicates md5 (Online tbl) now cnow c) ''analytics:duplicates''
        = Some (Json (JArr (map (\<lambda>d. JObj [(''endpoint'', JStr (dg_Endpoint d)),
                                             (''count'', JNum (of_int (dg_Count d))),
                                             (''cost'', JNum (dg_Cost d)),
                                             (''first_seen'', JTime (dg_FirstSeen d)),
                                             (''last_seen'', JTime (dg_LastSeen d))])
                              (map scan_DuplicateGroup (duplicates_query md5 now tbl)))),
                cnow + 10 * minute)"
    by (simp add: detectDuplicates_Online redis_Set_def marshal_DuplicateGroup_def)
qed

theorem detectDuplicates_artifact_witness:
  "reachable empty_cache \<and> inj (id :: string \<Rightarrow> string) \<and>
   map scan_DuplicateGroup (duplicates_query id demo_now mixed_table)
     = [\<lparr>dg_Endpoint = ''/v1/chat'', dg_Count = 2, dg_Cost = 12,
         dg_FirstSeen = 10 * hour + 5 * minute, dg_LastSeen = 10 * hour + 35 * minute\<rparr>] \<and>
   (\<exists>keys.
      set keys = {(org, ep, fp). 1 < length (duplicate_members id demo_now mixed_table org ep fp)} \<and>
      take 100 (map (duplicate_group id demo_now mixed_table) keys)
        = [\<lparr>dg_Endpoint = ''/v1/chat'', dg_Count = 2, dg_Cost = 12,
            dg_FirstSeen = 10 * hour + 5 * minute, dg_LastSeen = 10 * hour + 35 * minute\<rparr>]) \<and>
   (\<exists>org fp.
      int (length (duplicate_members id demo_now mixed_table org ''/v1/chat'' fp)) = 2 \<and>
      float64 (sum_list (map cost (duplicate_members id demo_now mixed_table org ''/v1/chat'' fp))) = 12) \<and>
   duplicate_members id demo_now mixed_table 1 ''/v1/chat''
     (''/v1/chat'' @ ''GET'' @ ''{'' @ [CHR 0x22] @ ''id'' @ [CHR 0x22] @ '': ''
        @ [CHR 0x22] @ ''1'' @ [CHR 0x22] @ ''}'')
     = [call (10 * hour + 5 * minute) ''OpenAI'' ''GET'' 6 ''1'',
        call (10 * hour + 35 * minute) ''OpenAI'' ''GET'' 6 ''1''] \<and>
   request_hash id (call (10 * hour + 5 * minute) ''OpenAI'' ''GET'' 6 ''1'')
     \<noteq> request_hash id (call (10 * hour + 15 * minute) ''OpenAI'' ''GET'' 1 ''2'') \<and>
   request_hash id (call (10 * hour + 5 * minute) ''OpenAI'' ''GET'' 6 ''1'')
     \<noteq> request_hash id (call (10 * hour + 25 * minute) ''OpenAI'' ''POST'' 1 ''1'') \<and>
   entries (detectDuplicates id (Online mixed_table) demo_now (demo_now + 1) empty_cache)
     ''analytics:duplicates''
     = Some (Json (JArr [JObj [(''endpoint'', JStr ''/v1/chat''), (''count'', JNum 2),
                               (''cost'', JNum 12), (''first_seen'', JTime 36300000000),
                               (''last_seen'', JTime 38100000000)]]),
             demo_now + 1 + 10 * minute)"
proof -
  let ?d = "\<lparr>dg_Endpoint = ''/v1/chat'', dg_Count = 2, dg_Cost = 12,
             dg_FirstSeen = 10 * hour + 5 * minute, dg_LastSeen = 10 * hour + 35 * minute\<rparr>"
  have r: "reachable empty_cache"
    by (simp add: empty_cache_def)
  have emitted: "map scan_DuplicateGroup (duplicates_query id demo_now mixed_table) = [?d]"
    by (simp add: mixed_duplicates scan_DuplicateGroup_def clock_defs)
  have ne: "duplicates_query id demo_now mixed_table \<noteq> []"
    by (simp add: mixed_duplicates)
  note main = detectDuplicates_artifact [of id demo_now mixed_table empty_cache "demo_now + 1"]
  from main have "\<forall>d \<in> set [?d]. \<exists>org fp.
        dg_Count d = int (length (duplicate_members id demo_now mixed_table org (dg_Endpoint d) fp)) \<and>
        1 < dg_Count d \<and>
        dg_Cost d = float64 (sum_list (map cost (duplicate_members id demo_now mixed_table org (dg_Endpoint d) fp))) \<and>
        dg_FirstSeen d = Min (set (map time (duplicate_members id demo_now mixed_table org (dg_Endpoint d) fp))) \<and>
        dg_LastSeen d = Max (set (map time (duplicate_members id demo_now mixed_table org (dg_Endpoint d) fp)))"
    unfolding emitted by (rule conjunct2 [THEN conjunct1])
  then have grp: "\<exists>org fp.
      int (length (duplicate_members id demo_now mixed_table org ''/v1/chat'' fp)) = 2 \<and>
      float64 (sum_list (map cost (duplicate_members id demo_now mixed_table org ''/v1/chat'' fp))) = 12"
    by simp metis
  from main have "inj (id :: string \<Rightarrow> string) \<longrightarrow>
      (\<forall>r r'. request_hash id r = request_hash id r' \<longleftrightarrow>
                 endpoint r @ http_method r @ serialized_metadata r
                   = endpoint r' @ http_method r' @ serialized_metadata r')"
    by (rule conjunct2 [THEN conjunct2, THEN conjunct2, THEN conjunct1])
  then have hash: "request_hash id r = request_hash id r' \<longleftrightarrow>
                 endpoint r @ http_method r @ serialized_metadata r
                   = endpoint r' @ http_method r' @ serialized_metadata r'" for r r'
    by simp
  have differ: "request_hash id (call (10 * hour + 5 * minute) ''OpenAI'' ''GET'' 6 ''1'')
     \<noteq> request_hash id (call (10 * hour + 15 * minute) ''OpenAI'' ''GET'' 1 ''2'')"
    "request_hash id (call (10 * hour + 5 * minute) ''OpenAI'' ''GET'' 6 ''1'')
     \<noteq> request_hash id (call (10 * hour + 25 * minute) ''OpenAI'' ''POST'' 1 ''1'')"
    unfolding hash by (simp_all add: call_def request_meta_def serialized_metadata_def)
  from main obtain keys where
    "set keys = {(org, ep, fp). 1 < length (duplicate_members id demo_now mixed_table org ep fp)}"
    "map scan_DuplicateGroup (duplicates_query id demo_now mixed_table)
       = take 100 (map (duplicate_group id demo_now mixed_table) keys)"
    by blast
  then have all_keys: "\<exists>keys.
      set keys = {(org, ep, fp). 1 < length (duplicate_members id demo_now mixed_table org ep fp)} \<and>
      take 100 (map (duplicate_group id demo_now mixed_table) keys) = [?d]"
    unfolding emitted by (intro exI [of _ keys] conjI) simp_all
  from main r ne
  have "entries (detectDuplicates id (Online mixed_table) demo_now (demo_now + 1) empty_cache)
          ''analytics:duplicates''
        = Some (Json (JArr (map (\<lambda>d. JObj [(''endpoint'', JStr (dg_Endpoint d)),
                                             (''count'', JNum (of_int (dg_Count d))),
                                             (''cost'', JNum (dg_Cost d)),
                                             (''first_seen'', JTime (dg_FirstSeen d)),
                                             (''last_seen'', JTime (dg_LastSeen d))])
                              (map scan_DuplicateGroup (duplicates_query id demo_now mixed_table)))),
                demo_now + 1 + 10 * minute)"
    by blast
  then have stored: "entries (detectDuplicates id (Online mixed_table) demo_now (demo_now + 1) empty_cache)
     ''analytics:duplicates''
     = Some (Json (JArr [JObj [(''endpoint'', JStr ''/v1/chat''), (''count'', JNum 2),
                               (''cost'', JNum 12), (''first_seen'', JTime 36300000000),
                               (''last_seen'', JTime 38100000000)]]),
             demo_now + 1 + 10 * minute)"
    unfolding emitted by (simp add: clock_defs)
  have i: "inj (id :: string \<Rightarrow> string)"
    by simp
  show ?thesis
    by (intro conjI r i emitted all_keys grp mixed_members differ stored)
qed

section \<open>Cache-opportunity detection\<close>

lemma sql_ROUND_percent:
  assumes "0 \<le> x" "x \<le> 100"
  shows "0 \<le> sql_ROUND x 2 \<and> sql_ROUND x 2 \<le> 100"
proof -
  from sql_ROUND_grid [OF assms] obtain n where "0 \<le> n" "n \<le> 10000" "sql_ROUND x 2 = of_int n / 100"
    by blast
  then show ?thesis by simp
qed

text \<open>The SQL expression of the hash is the content fingerprint.\<close>

lemma cache_fingerprint_content: "cache_fingerprint md5 = content_fingerprint md5"
  by (simp add: fun_eq_iff cache_fingerprint_def content_fingerprint_def serialized_metadata_def)

text \<open>The rows the WHERE clause of \<open>endpoint_stats\<close> selects.\<close>

lemma cacheable_group:
  "filter (\<lambda>r. endpoint r = ep)
     (filter (\<lambda>r. http_method r = ''GET'' \<and> time r > now - 24 * hour \<and> status_code r < 400) tbl)
   = cacheable_calls now tbl ep"
  unfolding cacheable_calls_def trailing_window_def filter_filter
  by (rule filter_cong) auto

lemma cacheable_endpoint_iff:
  "ep \<in> endpoint ` set (filter (\<lambda>r. http_method r = ''GET'' \<and> time r > now - 24 * hour \<and> status_code r < 400) tbl)
     \<longleftrightarrow> 0 < total_calls now tbl ep"
proof -
  have "0 < total_calls now tbl ep \<longleftrightarrow> set (cacheable_calls now tbl ep) \<noteq> {}"
    by (simp add: total_calls_def)
  also have "\<dots> \<longleftrightarrow> ep \<in> endpoint ` set (filter (\<lambda>r. http_method r = ''GET'' \<and> time r > now - 24 * hour \<and> status_code r < 400) tbl)"
    unfolding cacheable_group [symmetric] by auto
  finally show ?thesis by simp
qed

lemma endpoint_stats_row_fields:
  "es_endpoint (endpoint_stats_row md5 (ep, cacheable_calls now tbl ep)) = ep"
  "es_total_requests (endpoint_stats_row md5 (ep, cacheable_calls now tbl ep)) = int (total_calls now tbl ep)"
  "es_unique_requests (endpoint_stats_row md5 (ep, cacheable_calls now tbl ep)) = int (distinct_calls md5 now tbl ep)"
  "es_total_cost (endpoint_stats_row md5 (ep, cacheable_calls now tbl ep)) = endpoint_cost now tbl ep"
  by (simp_all add: endpoint_stats_row_def total_calls_def distinct_calls_def endpoint_cost_def
        sql_SUM_def length_remdups_card_conv cache_fingerprint_content)

lemma endpoint_stats_eq:
  "endpoint_stats md5 now tbl =
     map (\<lambda>ep. endpoint_stats_row md5 (ep, cacheable_calls now tbl ep))
       (filter (\<lambda>ep. 10 < total_calls now tbl ep)
          (remdups (map endpoint
             (filter (\<lambda>r. http_method r = ''GET'' \<and> time r > now - 24 * hour \<and> status_code r < 400) tbl))))"
  unfolding endpoint_stats_def Let_def group_by_def cacheable_group
  by (simp add: filter_map comp_def total_calls_def)

lemma candidates_eq:
  "map cache_row (filter (\<lambda>s. es_unique_requests s < es_total_requests s) (endpoint_stats md5 now tbl))
   = map (\<lambda>ep. cache_row (endpoint_stats_row md5 (ep, cacheable_calls now tbl ep)))
       (filter (recommendable md5 now tbl)
          (remdups (map endpoint
             (filter (\<lambda>r. http_method r = ''GET'' \<and> time r > now - 24 * hour \<and> status_code r < 400) tbl))))"
proof -
  have r: "recommendable md5 now tbl
             = (\<lambda>ep. 10 < total_calls now tbl ep \<and> distinct_calls md5 now tbl ep < total_calls now tbl ep)"
    by (simp add: fun_eq_iff recommendable_def)
  show ?thesis
    unfolding endpoint_stats_eq r
    by (simp add: filter_map comp_def endpoint_stats_row_fields)
qed

lemma cache_row_fields:
  "cw_endpoint (cache_row (endpoint_stats_row md5 (ep, cacheable_calls now tbl ep))) = ep"
  "cw_cache_hit_ratio (cache_row (endpoint_stats_row md5 (ep, cacheable_calls now tbl ep))) = hit_ratio md5 now tbl ep"
  "cw_total_cost (cache_row (endpoint_stats_row md5 (ep, cacheable_calls now tbl ep))) = endpoint_cost now tbl ep"
  by (simp_all add: cache_row_def endpoint_stats_row_fields hit_ratio_def)

lemma cache_query_eq:
  "cache_query md5 now tbl =
     take 50 (order_by_desc cw_cache_hit_ratio
       (map (\<lambda>ep. cache_row (endpoint_stats_row md5 (ep, cacheable_calls now tbl ep)))
          (filter (recommendable md5 now tbl)
             (remdups (map endpoint
                (filter (\<lambda>r. http_method r = ''GET'' \<and> time r > now - 24 * hour \<and> status_code r < 400) tbl))))))"
  unfolding cache_query_def candidates_eq ..

lemma scan_CacheRecommendation_fields:
  "cr_Endpoint (scan_CacheRecommendation sprintf row) = cw_endpoint row"
  "cr_CacheHitRatio (scan_CacheRecommendation sprintf row) = float64 (cw_cache_hit_ratio row)"
  "cr_PotentialSavings (scan_CacheRecommendation sprintf row)
     = float64 (float64 (float64 (cw_total_cost row) * float64 (float64 (cw_cache_hit_ratio row) / 100))
                  * float64 0.8)"
  by (simp_all add: scan_CacheRecommendation_def Let_def fmul_def fdiv_def)

lemma hit_ratio_grid:
  assumes "recommendable md5 now tbl ep"
  shows "\<exists>n. 0 \<le> n \<and> n \<le> 10000 \<and> hit_ratio md5 now tbl ep = of_int n / 100"
proof -
  let ?t = "real (total_calls now tbl ep)" and ?d = "real (distinct_calls md5 now tbl ep)"
  from assms have t: "0 < ?t" and d: "?d < ?t"
    by (simp_all add: recommendable_def)
  have "0 \<le> 100 * (?t - ?d) / ?t"
    using t d by simp
  moreover have "100 * (?t - ?d) / ?t \<le> 100"
    using t by (simp add: divide_le_eq)
  ultimately show ?thesis
    unfolding hit_ratio_def by (rule sql_ROUND_grid)
qed

text \<open>
  The ratio of the query has two decimals, and the double it is scanned into lies in the
  same range and determines it.
\<close>

lemma hit_ratio_float64:
  assumes "recommendable md5 now tbl ep"
  shows "0 \<le> float64 (hit_ratio md5 now tbl ep)"
    and "float64 (hit_ratio md5 now tbl ep) \<le> 100"
    and "sql_ROUND (float64 (hit_ratio md5 now tbl ep)) 2 = hit_ratio md5 now tbl ep"
proof -
  from hit_ratio_grid [OF assms] obtain n where n: "0 \<le> n" "n \<le> 10000"
    and h: "hit_ratio md5 now tbl ep = of_int n / 100"
    by blast
  from n have range: "0 \<le> hit_ratio md5 now tbl ep" "hit_ratio md5 now tbl ep \<le> 100"
    by (simp_all add: h)
  from range(1) show "0 \<le> float64 (hit_ratio md5 now tbl ep)"
    by (rule float64_nonneg)
  from float64_mono [OF range(2)] show "float64 (hit_ratio md5 now tbl ep) \<le> 100"
    by simp
  show "sql_ROUND (float64 (hit_ratio md5 now tbl ep)) 2 = hit_ratio md5 now tbl ep"
    unfolding h using n by (rule percent_roundtrip)
qed

text \<open>With a hash without collisions the distinct fingerprints of an endpoint are its distinct metadata texts.\<close>

lemma distinct_calls_inj:
  assumes "inj md5"
  shows "distinct_calls md5 now tbl ep = card (serialized_metadata ` set (cacheable_calls now tbl ep))"
proof -
  let ?S = "set (cacheable_calls now tbl ep)"
  have "content_fingerprint md5 ` ?S = (\<lambda>s. md5 (ep @ s)) ` serialized_metadata ` ?S"
    by (auto simp: content_fingerprint_def cacheable_calls_def image_iff)
  moreover have "inj (\<lambda>s. md5 (ep @ s))"
    using assms by (auto simp: inj_def)
  then have "inj_on (\<lambda>s. md5 (ep @ s)) (serialized_metadata ` ?S)"
    by (rule inj_on_subset) simp
  then have "card ((\<lambda>s. md5 (ep @ s)) ` serialized_metadata ` ?S) = card (serialized_metadata ` ?S)"
    by (rule card_image)
  ultimately show ?thesis
    by (simp add: distinct_calls_def)
qed

lemma cache_candidates:
  "\<exists>all. cache_query md5 now tbl = take 50 all \<and>
         sorted_wrt (\<lambda>a b. cw_cache_hit_ratio a \<ge> cw_cache_hit_ratio b) all \<and>
         distinct (map cw_endpoint all) \<and>
         set (map cw_endpoint all) = {ep. recommendable md5 now tbl ep} \<and>
         (\<forall>row \<in> set all.
            recommendable md5 now tbl (cw_endpoint row) \<and>
            cw_cache_hit_ratio row = hit_ratio md5 now tbl (cw_endpoint row) \<and>
            cw_total_cost row = endpoint_cost now tbl (cw_endpoint row))"
proof -
  define E where "E = remdups (map endpoint
      (filter (\<lambda>r. http_method r = ''GET'' \<and> time r > now - 24 * hour \<and> status_code r < 400) tbl))"
  define R where "R = (\<lambda>ep. cache_row (endpoint_stats_row md5 (ep, cacheable_calls now tbl ep)))"
  define all where "all = order_by_desc cw_cache_hit_ratio (map R (filter (recommendable md5 now tbl) E))"
  have q: "cache_query md5 now tbl = take 50 all"
    by (simp add: cache_query_eq all_def R_def E_def)
  have srt: "sorted_wrt (\<lambda>a b. cw_cache_hit_ratio a \<ge> cw_cache_hit_ratio b) all"
    unfolding all_def by (rule order_by_desc_sorted)
  have ep_R: "map cw_endpoint (map R xs) = xs" for xs
    by (induction xs) (simp_all add: R_def cache_row_fields)
  have dist: "distinct (map cw_endpoint all)"
    unfolding all_def distinct_map_order_by_desc ep_R by (simp add: E_def)
  have in_E: "ep \<in> set E" if "recommendable md5 now tbl ep" for ep
  proof -
    from that have "0 < total_calls now tbl ep"
      by (simp add: recommendable_def)
    then show ?thesis
      unfolding E_def set_remdups set_map by (simp only: cacheable_endpoint_iff)
  qed
  have "set (map cw_endpoint all) = set (map cw_endpoint (map R (filter (recommendable md5 now tbl) E)))"
    unfolding all_def by (simp only: set_map set_order_by_desc)
  also have "\<dots> = set (filter (recommendable md5 now tbl) E)"
    by (simp only: ep_R)
  also have "\<dots> = {ep. recommendable md5 now tbl ep}"
    using in_E by auto
  finally have eps: "set (map cw_endpoint all) = {ep. recommendable md5 now tbl ep}" .
  have rows: "\<forall>row \<in> set all.
            recommendable md5 now tbl (cw_endpoint row) \<and>
            cw_cache_hit_ratio row = hit_ratio md5 now tbl (cw_endpoint row) \<and>
            cw_total_cost row = endpoint_cost now tbl (cw_endpoint row)"
  proof
    fix row assume "row \<in> set all"
    then obtain ep where ep: "recommendable md5 now tbl ep" and row: "row = R ep"
      by (auto simp: all_def set_order_by_desc)
    show "recommendable md5 now tbl (cw_endpoint row) \<and>
            cw_cache_hit_ratio row = hit_ratio md5 now tbl (cw_endpoint row) \<and>
            cw_total_cost row = endpoint_cost now tbl (cw_endpoint row)"
      using ep by (simp add: row R_def cache_row_fields)
  qed
  from q srt dist eps rows show ?thesis
    by (intro exI [of _ all] conjI)
qed

lemma analyzeCacheOpportunities_Online:
  "analyzeCacheOpportunities md5 sprintf (Online tbl) now cnow c =
     (if cache_query md5 now tbl = [] then c
      else redis_Set c cnow ''analytics:cache_recommendations''
             (Json (JArr (map marshal_CacheRecommendation
                            (map (scan_CacheRecommendation sprintf) (cache_query md5 now tbl)))))
             (10 * minute))"
  by (simp add: analyzeCacheOpportunities_def QueryContext_def)

lemma varied_cache_query:
  "cache_query id demo_now varied_table =
     [\<lparr>cw_endpoint = ''/v1/chat'', cw_total_requests = 12, cw_unique_requests = 6,
       cw_total_cost = 6, cw_avg_latency = 120, cw_cache_hit_ratio = 50\<rparr>]"
  by (simp add: cache_query_def endpoint_stats_def varied_table_def demo_now_def call_def
      request_meta_def clock_defs group_by_def endpoint_stats_row_def cache_row_def
      cache_fingerprint_def sql_SUM_def sql_AVG_def sql_ROUND_def order_by_desc_def)

lemma eleven_cache_query: "cache_query id demo_now eleven_table = []"
  by (simp add: cache_query_def endpoint_stats_def eleven_table_def demo_now_def call_def
      request_meta_def clock_defs group_by_def endpoint_stats_row_def cache_row_def
      cache_fingerprint_def sql_SUM_def sql_AVG_def sql_ROUND_def order_by_desc_def)

lemma varied_recommendations:
  "map (scan_CacheRecommendation (\<lambda>f args. f)) (cache_query id demo_now varied_table)
     = [\<lparr>cr_Endpoint = ''/v1/chat'', cr_CacheHitRatio = 50,
         cr_PotentialSavings = 1351079888211149 / 562949953421312,
         cr_Recommendation = ''Cache this endpoint with TTL of %d seconds. Could save %.2f%% of requests.''\<rparr>]"
  by (simp add: varied_cache_query scan_CacheRecommendation_def fmul_def fdiv_def
        float64_half float64_four_fifths float64_three_times_four_fifths)

lemma example_calls:
  "total_calls demo_now varied_table ''/v1/chat'' = 12"
  "card (serialized_metadata ` set (cacheable_calls demo_now varied_table ''/v1/chat'')) = 6"
  "endpoint_cost demo_now varied_table ''/v1/chat'' = 6"
  "total_calls demo_now eleven_table ''/v1/chat'' = 11"
  "card (serialized_metadata ` set (cacheable_calls demo_now eleven_table ''/v1/chat'')) = 11"
  unfolding card_image_list
  by (simp_all add: total_calls_def endpoint_cost_def cacheable_calls_def trailing_window_def
        serialized_metadata_def varied_table_def eleven_table_def demo_now_def call_def
        request_meta_def clock_defs)

text \<open>
  Claim C2, as the code has it.  There is a list of exactly the recommendable endpoints
  (more than 10 GET calls with status below 400 in the last 24 hours, fewer distinct
  content fingerprints than calls), each once, ordered by hit ratio, largest first, and the
  endpoints of the emitted recommendations are its first 50: an endpoint is recommended if
  and only if it is recommendable, up to the cap.  The content fingerprint is the hash of
  endpoint and serialized metadata; when the hash function has no collisions, the distinct
  fingerprints of an endpoint are as many as the distinct metadata texts of its calls.
  Every recommendation carries as hit ratio the double nearest to
  \<open>ROUND(100 * (total - distinct) / total, 2)\<close>, which lies between 0 and 100 and gives that
  value back when rounded to 2 decimals.  Its savings are the float64 product of the total
  cost, the hit ratio divided by 100, and 0.8, taken from the left: every operand and the
  result of every operation is rounded to the nearest double.  The emitted list is ordered
  by hit ratio, has at most 50 entries, and is stored for 10 minutes when it is not empty.
\<close>

theorem analyzeCacheOpportunities_artifact:
  "(\<exists>eps. distinct eps \<and> set eps = {ep. recommendable md5 now tbl ep} \<and>
          sorted_wrt (\<ge>) (map (hit_ratio md5 now tbl) eps) \<and>
          map cr_Endpoint (map (scan_CacheRecommendation sprintf) (cache_query md5 now tbl)) = take 50 eps) \<and>
   (inj md5 \<longrightarrow>
      (\<forall>ep. distinct_calls md5 now tbl ep = card (serialized_metadata ` set (cacheable_calls now tbl ep))) \<and>
      (\<forall>r r'. cache_fingerprint md5 r = cache_fingerprint md5 r' \<longleftrightarrow>
                 endpoint r @ serialized_metadata r = endpoint r' @ serialized_metadata r')) \<and>
   (\<forall>r \<in> set (map (scan_CacheRecommendation sprintf) (cache_query md5 now tbl)).
      recommendable md5 now tbl (cr_Endpoint r) \<and>
      cr_CacheHitRatio r = float64 (hit_ratio md5 now tbl (cr_Endpoint r)) \<and>
      sql_ROUND (cr_CacheHitRatio r) 2 = hit_ratio md5 now tbl (cr_Endpoint r) \<and>
      0 \<le> cr_CacheHitRatio r \<and> cr_CacheHitRatio r \<le> 100 \<and>
      cr_PotentialSavings r
        = float64 (float64 (float64 (endpoint_cost now tbl (cr_Endpoint r)) * float64 (cr_CacheHitRatio r / 100))
                     * float64 0.8)) \<and>
   sorted_wrt (\<ge>) (map cr_CacheHitRatio (map (scan_CacheRecommendation sprintf) (cache_query md5 now tbl))) \<and>
   length (map (scan_CacheRecommendation sprintf) (cache_query md5 now tbl)) \<le> 50 \<and>
   (reachable c \<and> cache_query md5 now tbl \<noteq> [] \<longrightarrow>
      entries (analyzeCacheOpportunities md5 sprintf (Online tbl) now cnow c) ''analytics:cache_recommendations''
        = Some (Json (JArr (map (\<lambda>r. JObj [(''endpoint'', JStr (cr_Endpoint r)),
                                             (''cache_hit_ratio'', JNum (cr_CacheHitRatio r)),
                                             (''potential_savings'', JNum (cr_PotentialSavings r)),
                                             (''recommendation'', JStr (cr_Recommendation r))])
                              (map (scan_CacheRecommendation sprintf) (cache_query md5 now tbl)))),
                cnow + 10 * minute))"
proof -
  obtain all where q: "cache_query md5 now tbl = take 50 all"
    and srt: "sorted_wrt (\<lambda>a b. cw_cache_hit_ratio a \<ge> cw_cache_hit_ratio b) all"
    and dist: "distinct (map cw_endpoint all)"
    and eps: "set (map cw_endpoint all) = {ep. recommendable md5 now tbl ep}"
    and rows: "\<forall>row \<in> set all.
            recommendable md5 now tbl (cw_endpoint row) \<and>
            cw_cache_hit_ratio row = hit_ratio md5 now tbl (cw_endpoint row) \<and>
            cw_total_cost row = endpoint_cost now tbl (cw_endpoint row)"
    using cache_candidates [of md5 now tbl] by blast
  have ratio_map: "map (hit_ratio md5 now tbl) (map cw_endpoint all) = map cw_cache_hit_ratio all"
    using rows by simp
  have sorted_all: "sorted_wrt (\<ge>) (map cw_cache_hit_ratio all)"
    using srt by (simp add: sorted_wrt_map)
  have endpoints: "map cr_Endpoint (map (scan_CacheRecommendation sprintf) (cache_query md5 now tbl))
                     = take 50 (map cw_endpoint all)"
    by (simp add: q take_map scan_CacheRecommendation_fields comp_def)
  have part1: "\<exists>eps. distinct eps \<and> set eps = {ep. recommendable md5 now tbl ep} \<and>
          sorted_wrt (\<ge>) (map (hit_ratio md5 now tbl) eps) \<and>
          map cr_Endpoint (map (scan_CacheRecommendation sprintf) (cache_query md5 now tbl)) = take 50 eps"
    using dist eps sorted_all endpoints unfolding ratio_map [symmetric]
    by (intro exI [of _ "map cw_endpoint all"] conjI)
  have pin: "inj md5 \<longrightarrow>
      (\<forall>ep. distinct_calls md5 now tbl ep = card (serialized_metadata ` set (cacheable_calls now tbl ep))) \<and>
      (\<forall>r r'. cache_fingerprint md5 r = cache_fingerprint md5 r' \<longleftrightarrow>
                 endpoint r @ serialized_metadata r = endpoint r' @ serialized_metadata r')"
  proof (intro impI conjI allI)
    fix ep assume "inj md5"
    then show "distinct_calls md5 now tbl ep = card (serialized_metadata ` set (cacheable_calls now tbl ep))"
      by (rule distinct_calls_inj)
  next
    fix r r' :: UsageRecord
    assume "inj md5"
    then show "cache_fingerprint md5 r = cache_fingerprint md5 r' \<longleftrightarrow>
                 endpoint r @ serialized_metadata r = endpoint r' @ serialized_metadata r'"
      unfolding cache_fingerprint_def serialized_metadata_def by (rule inj_eq)
  qed
  have part2: "\<forall>r \<in> set (map (scan_CacheRecommendation sprintf) (cache_query md5 now tbl)).
      recommendable md5 now tbl (cr_Endpoint r) \<and>
      cr_CacheHitRatio r = float64 (hit_ratio md5 now tbl (cr_Endpoint r)) \<and>
      sql_ROUND (cr_CacheHitRatio r) 2 = hit_ratio md5 now tbl (cr_Endpoint r) \<and>
      0 \<le> cr_CacheHitRatio r \<and> cr_CacheHitRatio r \<le> 100 \<and>
      cr_PotentialSavings r
        = float64 (float64 (float64 (endpoint_cost now tbl (cr_Endpoint r)) * float64 (cr_CacheHitRatio r / 100))
                     * float64 0.8)"
  proof
    fix r assume "r \<in> set (map (scan_CacheRecommendation sprintf) (cache_query md5 now tbl))"
    then obtain row where row: "row \<in> set all" and r: "r = scan_CacheRecommendation sprintf row"
      unfolding q by (auto dest: in_set_takeD)
    from rows row have f: "recommendable md5 now tbl (cw_endpoint row)"
      "cw_cache_hit_ratio row = hit_ratio md5 now tbl (cw_endpoint row)"
      "cw_total_cost row = endpoint_cost now tbl (cw_endpoint row)"
      by blast+
    have e: "cr_Endpoint r = cw_endpoint row"
      and h: "cr_CacheHitRatio r = float64 (hit_ratio md5 now tbl (cw_endpoint row))"
      and s: "cr_PotentialSavings r
                = float64 (float64 (float64 (endpoint_cost now tbl (cw_endpoint row))
                                      * float64 (float64 (hit_ratio md5 now tbl (cw_endpoint row)) / 100))
                             * float64 0.8)"
      unfolding r scan_CacheRecommendation_fields f(2,3) by (rule refl)+
    show "recommendable md5 now tbl (cr_Endpoint r) \<and>
      cr_CacheHitRatio r = float64 (hit_ratio md5 now tbl (cr_Endpoint r)) \<and>
      sql_ROUND (cr_CacheHitRatio r) 2 = hit_ratio md5 now tbl (cr_Endpoint r) \<and>
      0 \<le> cr_CacheHitRatio r \<and> cr_CacheHitRatio r \<le> 100 \<and>
      cr_PotentialSavings r
        = float64 (float64 (float64 (endpoint_cost now tbl (cr_Endpoint r)) * float64 (cr_CacheHitRatio r / 100))
                     * float64 0.8)"
      unfolding s h e using f(1) hit_ratio_float64 [OF f(1)] by (intro conjI refl)
  qed
  have "map cr_CacheHitRatio (map (scan_CacheRecommendation sprintf) (cache_query md5 now tbl))
          = take 50 (map (\<lambda>row. float64 (cw_cache_hit_ratio row)) all)"
    by (simp add: q take_map scan_CacheRecommendation_fields comp_def)
  then have part3: "sorted_wrt (\<ge>) (map cr_CacheHitRatio (map (scan_CacheRecommendation sprintf) (cache_query md5 now tbl)))"
    using sorted_wrt_take [OF sorted_float64 [OF srt], of 50] by simp
  have part4: "length (map (scan_CacheRecommendation sprintf) (cache_query md5 now tbl)) \<le> 50"
    by (simp add: q)
  have part5: "reachable c \<and> cache_query md5 now tbl \<noteq> [] \<longrightarrow>
      entries (analyzeCacheOpportunities md5 sprintf (Online tbl) now cnow c) ''analytics:cache_recommendations''
        = Some (Json (JArr (map (\<lambda>r. JObj [(''endpoint'', JStr (cr_Endpoint r)),
                                             (''cache_hit_ratio'', JNum (cr_CacheHitRatio r)),
                                             (''potential_savings'', JNum (cr_PotentialSavings r)),
                                             (''recommendation'', JStr (cr_Recommendation r))])
                              (map (scan_CacheRecommendation sprintf) (cache_query md5 now tbl)))),
                cnow + 10 * minute)"
    by (simp add: analyzeCacheOpportunities_Online redis_Set_def marshal_CacheRecommendation_def)
  from part1 pin part2 part3 part4 part5 show ?thesis
    by (intro conjI)
qed

theorem analyzeCacheOpportunities_artifact_witness:
  "reachable empty_cache \<and> inj (id :: string \<Rightarrow> string) \<and>
   map cr_Endpoint (map (scan_CacheRecommendation (\<lambda>f args. f)) (cache_query id demo_now varied_table))
     = [''/v1/chat''] \<and>
   recommendable id demo_now varied_table ''/v1/chat'' \<and>
   total_calls demo_now varied_table ''/v1/chat'' = 12 \<and>
   distinct_calls id demo_now varied_table ''/v1/chat'' = 6 \<and>
   hit_ratio id demo_now varied_table ''/v1/chat'' = 50 \<and>
   endpoint_cost demo_now varied_table ''/v1/chat'' = 6 \<and>
   float64 (float64 (float64 6 * float64 (50 / 100)) * float64 0.8) = 1351079888211149 / 562949953421312 \<and>
   entries (analyzeCacheOpportunities id (\<lambda>f args. f) (Online varied_table) demo_now (demo_now + 1) empty_cache)
     ''analytics:cache_recommendations''
     = Some (Json (JArr [JObj [(''endpoint'', JStr ''/v1/chat''), (''cache_hit_ratio'', JNum 50),
                               (''potential_savings'', JNum (1351079888211149 / 562949953421312)),
                               (''recommendation'',
                                JStr ''Cache this endpoint with TTL of %d seconds. Could save %.2f%% of requests.'')]]),
             demo_now + 1 + 10 * minute) \<and>
   total_calls demo_now eleven_table ''/v1/chat'' = 11 \<and>
   distinct_calls id demo_now eleven_table ''/v1/chat'' = 11 \<and>
   {ep. recommendable id demo_now eleven_table ep} = {} \<and>
   map (scan_CacheRecommendation (\<lambda>f args. f)) (cache_query id demo_now eleven_table) = []"
proof -
  let ?recs = "map (scan_CacheRecommendation (\<lambda>f args. f)) (cache_query id demo_now varied_table)"
  let ?rec = "\<lparr>cr_Endpoint = ''/v1/chat'', cr_CacheHitRatio = 50,
         cr_PotentialSavings = 1351079888211149 / 562949953421312,
         cr_Recommendation = ''Cache this endpoint with TTL of %d seconds. Could save %.2f%% of requests.''\<rparr>"
  have i: "inj (id :: string \<Rightarrow> string)"
    by simp
  have r: "reachable empty_cache"
    by (simp add: empty_cache_def)
  note main = analyzeCacheOpportunities_artifact
                [of id demo_now varied_table "\<lambda>f args. f" empty_cache "demo_now + 1"]
  note none = analyzeCacheOpportunities_artifact
                [of id demo_now eleven_table "\<lambda>f args. f" empty_cache "demo_now + 1"]
  have endpoints: "map cr_Endpoint ?recs = [''/v1/chat'']"
    by (simp add: varied_recommendations)
  from main [THEN conjunct2, THEN conjunct1] i have
    d: "distinct_calls id demo_now varied_table ''/v1/chat''
          = card (serialized_metadata ` set (cacheable_calls demo_now varied_table ''/v1/chat''))"
    by blast
  from none [THEN conjunct2, THEN conjunct1] i have
    d': "distinct_calls id demo_now eleven_table ''/v1/chat''
          = card (serialized_metadata ` set (cacheable_calls demo_now eleven_table ''/v1/chat''))"
    by blast
  from main [THEN conjunct2, THEN conjunct2, THEN conjunct1] have
    "\<forall>r \<in> set [?rec]. recommendable id demo_now varied_table (cr_Endpoint r) \<and>
      cr_CacheHitRatio r = float64 (hit_ratio id demo_now varied_table (cr_Endpoint r)) \<and>
      sql_ROUND (cr_CacheHitRatio r) 2 = hit_ratio id demo_now varied_table (cr_Endpoint r) \<and>
      0 \<le> cr_CacheHitRatio r \<and> cr_CacheHitRatio r \<le> 100 \<and>
      cr_PotentialSavings r
        = float64 (float64 (float64 (endpoint_cost demo_now varied_table (cr_Endpoint r)) * float64 (cr_CacheHitRatio r / 100))
                     * float64 0.8)"
    unfolding varied_recommendations .
  then have spec: "recommendable id demo_now varied_table ''/v1/chat''"
    "sql_ROUND 50 2 = hit_ratio id demo_now varied_table ''/v1/chat''"
    "1351079888211149 / 562949953421312
       = float64 (float64 (float64 (endpoint_cost demo_now varied_table ''/v1/chat'') * float64 (50 / 100))
                     * float64 0.8)"
    by simp_all
  have ratio: "hit_ratio id demo_now varied_table ''/v1/chat'' = 50"
    using spec(2) by (simp add: sql_ROUND_def)
  have savings: "float64 (float64 (float64 6 * float64 (50 / 100)) * float64 0.8)
                   = 1351079888211149 / 562949953421312"
    using spec(3) unfolding example_calls(3) by (rule sym)
  have "reachable empty_cache \<and> cache_query id demo_now varied_table \<noteq> []"
    by (simp add: empty_cache_def varied_cache_query)
  with main have "entries (analyzeCacheOpportunities id (\<lambda>f args. f) (Online varied_table) demo_now (demo_now + 1) empty_cache)
     ''analytics:cache_recommendations''
     = Some (Json (JArr (map (\<lambda>r. JObj [(''endpoint'', JStr (cr_Endpoint r)),
                                          (''cache_hit_ratio'', JNum (cr_CacheHitRatio r)),
                                          (''potential_savings'', JNum (cr_PotentialSavings r)),
                                          (''recommendation'', JStr (cr_Recommendation r))]) ?recs)),
             demo_now + 1 + 10 * minute)"
    by blast
  then have stored: "entries (analyzeCacheOpportunities id (\<lambda>f args. f) (Online varied_table) demo_now (demo_now + 1) empty_cache)
     ''analytics:cache_recommendations''
     = Some (Json (JArr [JObj [(''endpoint'', JStr ''/v1/chat''), (''cache_hit_ratio'', JNum 50),
                               (''potential_savings'', JNum (1351079888211149 / 562949953421312)),
                               (''recommendation'',
                                JStr ''Cache this endpoint with TTL of %d seconds. Could save %.2f%% of requests.'')]]),
             demo_now + 1 + 10 * minute)"
    unfolding varied_recommendations by simp
  from none [THEN conjunct1] obtain eps where
    "set eps = {ep. recommendable id demo_now eleven_table ep}"
    "map cr_Endpoint (map (scan_CacheRecommendation (\<lambda>f args. f)) (cache_query id demo_now eleven_table))
       = take 50 eps"
    by blast
  then have unrecommended: "{ep. recommendable id demo_now eleven_table ep} = {}"
    by (simp add: eleven_cache_query)
  have empty: "map (scan_CacheRecommendation (\<lambda>f args. f)) (cache_query id demo_now eleven_table) = []"
    by (simp add: eleven_cache_query)
  note calls = example_calls(1) d [unfolded example_calls(2)] example_calls(3,4)
               d' [unfolded example_calls(5)]
  show ?thesis
    by (intro conjI r i endpoints spec(1) calls ratio savings stored unrecommended empty)
qed

text \<open>
  Claim C2, as the specification states it, fails in its equality for the savings.  An
  endpoint with 12 calls of cost 0.5, two for each of six requests, has total cost 6 and
  hit ratio 50; the recommendation carries the savings \<open>1351079888211149 / 2 ^ 49\<close>,
  which JSON prints as \<^verbatim>\<open>2.4000000000000004\<close>: it is not \<open>6 * (50 / 100) * 0.8 = 2.4\<close>, nor
  the double nearest to it.
\<close>

theorem cache_savings_counterexample:
  "entries (analyzeCacheOpportunities id (\<lambda>f args. f) (Online varied_table) demo_now demo_now empty_cache)
     ''analytics:cache_recommendations''
     = Some (Json (JArr [JObj [(''endpoint'', JStr ''/v1/chat''), (''cache_hit_ratio'', JNum 50),
                               (''potential_savings'', JNum (1351079888211149 / 562949953421312)),
                               (''recommendation'',
                                JStr ''Cache this endpoint with TTL of %d seconds. Could save %.2f%% of requests.'')]]),
             demo_now + 10 * minute) \<and>
   endpoint_cost demo_now varied_table ''/v1/chat'' = 6 \<and>
   hit_ratio id demo_now varied_table ''/v1/chat'' = 50 \<and>
   (1351079888211149 / 562949953421312 :: real) \<noteq> 6 * (50 / 100) * 0.8 \<and>
   (1351079888211149 / 562949953421312 :: real) \<noteq> float64 (6 * (50 / 100) * 0.8)"
proof -
  have stored: "entries (analyzeCacheOpportunities id (\<lambda>f args. f) (Online varied_table) demo_now demo_now empty_cache)
     ''analytics:cache_recommendations''
     = Some (Json (JArr [JObj [(''endpoint'', JStr ''/v1/chat''), (''cache_hit_ratio'', JNum 50),
                               (''potential_savings'', JNum (1351079888211149 / 562949953421312)),
                               (''recommendation'',
                                JStr ''Cache this endpoint with TTL of %d seconds. Could save %.2f%% of requests.'')]]),
             demo_now + 10 * minute)"
  proof -
    have "cache_query id demo_now varied_table \<noteq> []"
      by (simp add: varied_cache_query)
    then show ?thesis
      by (simp add: analyzeCacheOpportunities_Online varied_recommendations
            redis_Set_def empty_cache_def marshal_CacheRecommendation_def)
  qed
  have d: "distinct_calls id demo_now varied_table ''/v1/chat'' = 6"
    using distinct_calls_inj [of id demo_now varied_table "''/v1/chat''"] example_calls(2) by simp
  have ratio: "hit_ratio id demo_now varied_table ''/v1/chat'' = 50"
    by (simp add: hit_ratio_def d example_calls(1) sql_ROUND_def)
  have numbers: "(1351079888211149 / 562949953421312 :: real) \<noteq> 6 * (50 / 100) * 0.8"
    "(1351079888211149 / 562949953421312 :: real) \<noteq> float64 (6 * (50 / 100) * 0.8)"
    by (simp_all add: float64_twelve_fifths)
  from stored example_calls(3) ratio numbers show ?thesis
    by (intro conjI)
qed

section \<open>Anomaly detection\<close>

lemma remdups_map_inj: "inj f \<Longrightarrow> remdups (map f xs) = map f (remdups xs)"
  by (induction xs) (auto simp: inj_def)

lemma filter_eq_singleton: "distinct xs \<Longrightarrow> x \<in> set xs \<Longrightarrow> filter (\<lambda>y. x = y) xs = [x]"
  by (induction xs) (auto simp: filter_empty_conv)

lemma concat_map_if: "concat (map (\<lambda>x. if P x then [f x] else []) xs) = map f (filter P xs)"
  by (induction xs) simp_all

lemma window_eq: "filter (\<lambda>r. time r > now - w) tbl = trailing_window w now tbl"
  by (simp add: trailing_window_def)

lemma bucket_group:
  "filter (\<lambda>r. time_bucket hour (time r) = h \<and> organization_id r = org) (trailing_window (24 * hour) now tbl)
     = bucket_records now tbl org h"
  unfolding bucket_records_def by (rule filter_cong) auto

lemma hourly_costs_eq:
  "hourly_costs now tbl = map (bucket_row now tbl) (window_buckets now tbl)"
  unfolding hourly_costs_def window_eq group_by_def map_map window_buckets_def
  by (rule map_cong [OF refl])
     (auto simp: hourly_cost_row_def bucket_row_def bucket_cost_def sql_SUM_def bucket_group)

lemma org_keys:
  "filter (\<lambda>k. snd k = org) (window_buckets now tbl) = map (\<lambda>h. (h, org)) (org_hours now tbl org)"
proof -
  let ?W = "trailing_window (24 * hour) now tbl"
  let ?K = "\<lambda>r. (time_bucket hour (time r), organization_id r)"
  have "map ?K (filter (\<lambda>r. organization_id r = org) ?W) = filter (\<lambda>k. snd k = org) (map ?K ?W)"
    by (simp add: filter_map comp_def)
  then have "filter (\<lambda>k. snd k = org) (remdups (map ?K ?W))
          = remdups (map ?K (filter (\<lambda>r. organization_id r = org) ?W))"
    by (simp only: remdups_filter)
  also have "\<dots> = remdups (map (\<lambda>h. (h, org))
                       (map (\<lambda>r. time_bucket hour (time r)) (filter (\<lambda>r. organization_id r = org) ?W)))"
    by (rule arg_cong [where f = remdups]) (simp add: comp_def)
  also have "\<dots> = map (\<lambda>h. (h, org)) (org_hours now tbl org)"
    unfolding org_hours_def by (rule remdups_map_inj) (simp add: inj_def)
  finally show ?thesis
    by (simp only: window_buckets_def)
qed

lemma bucket_iff: "(h, org) \<in> set (window_buckets now tbl) \<longleftrightarrow> h \<in> set (org_hours now tbl org)"
proof -
  have "(h, org) \<in> set (window_buckets now tbl)
          \<longleftrightarrow> (h, org) \<in> set (filter (\<lambda>k. snd k = org) (window_buckets now tbl))"
    by simp
  also have "\<dots> \<longleftrightarrow> h \<in> set (org_hours now tbl org)"
    unfolding org_keys by auto
  finally show ?thesis .
qed

lemma org_distribution:
  "map hc_hourly_cost (filter (\<lambda>hc. hc_organization_id hc = org) (hourly_costs now tbl))
     = org_hourly_costs now tbl org"
proof -
  have "filter (\<lambda>hc. hc_organization_id hc = org) (hourly_costs now tbl)
          = map (bucket_row now tbl) (filter (\<lambda>k. snd k = org) (window_buckets now tbl))"
    by (simp add: hourly_costs_eq filter_map comp_def bucket_row_def)
  then show ?thesis
    by (simp add: org_keys org_hourly_costs_def comp_def bucket_row_def)
qed

lemma avg_costs_eq:
  "avg_costs (hourly_costs now tbl) =
     map (org_stats now tbl) (remdups (map snd (window_buckets now tbl)))"
proof -
  have orgs: "map hc_organization_id (hourly_costs now tbl) = map snd (window_buckets now tbl)"
    by (simp add: hourly_costs_eq comp_def bucket_row_def)
  show ?thesis
    unfolding avg_costs_def group_by_def map_map orgs
    by (rule map_cong [OF refl]) (simp add: avg_cost_row_def org_distribution org_stats_def)
qed

lemma exceeds_threshold_iff:
  assumes "k \<in> set (window_buckets now tbl)"
  shows "exceeds_threshold (bucket_row now tbl k) (org_stats now tbl (snd k))
           \<longleftrightarrow> exceeds_three_sigma now tbl (snd k) (fst k)"
proof -
  from assms have "fst k \<in> set (org_hours now tbl (snd k))"
    using bucket_iff [of "fst k" "snd k" now tbl] by simp
  then show ?thesis
    by (simp add: exceeds_threshold_def exceeds_three_sigma_def bucket_row_def org_stats_def
          split: option.split)
qed

lemma matching_stats:
  assumes "k \<in> set (window_buckets now tbl)"
  shows "filter (\<lambda>ac. hc_organization_id (bucket_row now tbl k) = ac_organization_id ac
                      \<and> exceeds_threshold (bucket_row now tbl k) ac)
           (avg_costs (hourly_costs now tbl))
         = (if exceeds_three_sigma now tbl (snd k) (fst k) then [org_stats now tbl (snd k)] else [])"
proof -
  let ?orgs = "remdups (map snd (window_buckets now tbl))"
  have one: "filter (\<lambda>org. snd k = org) ?orgs = [snd k]"
    using assms by (intro filter_eq_singleton) auto
  have "filter (\<lambda>ac. hc_organization_id (bucket_row now tbl k) = ac_organization_id ac
                      \<and> exceeds_threshold (bucket_row now tbl k) ac)
           (avg_costs (hourly_costs now tbl))
        = map (org_stats now tbl)
            (filter (\<lambda>org. snd k = org \<and> exceeds_threshold (bucket_row now tbl k) (org_stats now tbl org)) ?orgs)"
    by (simp add: avg_costs_eq filter_map comp_def bucket_row_def org_stats_def)
  also have "filter (\<lambda>org. snd k = org \<and> exceeds_threshold (bucket_row now tbl k) (org_stats now tbl org)) ?orgs
        = filter (\<lambda>org. snd k = org \<and> exceeds_three_sigma now tbl (snd k) (fst k)) ?orgs"
    by (rule filter_cong [OF refl]) (auto simp: exceeds_threshold_iff [OF assms])
  also have "\<dots> = (if exceeds_three_sigma now tbl (snd k) (fst k) then [snd k] else [])"
    using one by simp
  finally show ?thesis by simp
qed

lemma anomalies_query_eq:
  "anomalies_query now tbl =
     order_by_desc ar_hour
       (map (\<lambda>k. anomaly_row (bucket_row now tbl k) (org_stats now tbl (snd k)))
          (filter (\<lambda>k. exceeds_three_sigma now tbl (snd k) (fst k)) (window_buckets now tbl)))"
proof -
  have "concat (map (\<lambda>hc. map (anomaly_row hc)
                  (filter (\<lambda>ac. hc_organization_id hc = ac_organization_id ac \<and> exceeds_threshold hc ac)
                     (avg_costs (hourly_costs now tbl))))
           (hourly_costs now tbl))
        = concat (map (\<lambda>k. if exceeds_three_sigma now tbl (snd k) (fst k)
                           then [anomaly_row (bucket_row now tbl k) (org_stats now tbl (snd k))] else [])
                   (window_buckets now tbl))"
    unfolding hourly_costs_eq [of now tbl] map_map
    by (rule arg_cong [where f = concat], rule map_cong [OF refl])
       (simp add: matching_stats [unfolded hourly_costs_eq])
  then show ?thesis
    by (simp add: anomalies_query_def Let_def concat_map_if)
qed




lemma anomaly_row_key:
  "(\<lambda>r. (ar_organization_id r, ar_hour r)) (anomaly_row (bucket_row now tbl k) ac) = prod.swap k"
  by (simp add: anomaly_row_def bucket_row_def prod.swap_def)

lemma anomaly_keys:
  "distinct (map (\<lambda>r. (ar_organization_id r, ar_hour r)) (anomalies_query now tbl)) \<and>
   set (map (\<lambda>r. (ar_organization_id r, ar_hour r)) (anomalies_query now tbl))
     = {(org, h). exceeds_three_sigma now tbl org h}"
proof -
  let ?flagged = "filter (\<lambda>k. exceeds_three_sigma now tbl (snd k) (fst k)) (window_buckets now tbl)"
  have keys: "map (\<lambda>r. (ar_organization_id r, ar_hour r))
                (map (\<lambda>k. anomaly_row (bucket_row now tbl k) (org_stats now tbl (snd k))) ?flagged)
              = map prod.swap ?flagged"
    by (simp add: comp_def anomaly_row_key del: swap_simp)
  have "distinct (map prod.swap ?flagged)"
    by (simp add: distinct_map window_buckets_def)
  then have d: "distinct (map (\<lambda>r. (ar_organization_id r, ar_hour r)) (anomalies_query now tbl))"
    unfolding anomalies_query_eq distinct_map_order_by_desc keys .
  have "set (map (\<lambda>r. (ar_organization_id r, ar_hour r)) (anomalies_query now tbl))
          = set (map prod.swap ?flagged)"
    unfolding anomalies_query_eq keys [symmetric] by (simp only: set_map set_order_by_desc)
  also have "\<dots> = {(org, h). exceeds_three_sigma now tbl org h}"
  proof (intro set_eqI iffI)
    fix p assume "p \<in> set (map prod.swap ?flagged)"
    then show "p \<in> {(org, h). exceeds_three_sigma now tbl org h}" by auto
  next
    fix p assume "p \<in> {(org, h). exceeds_three_sigma now tbl org h}"
    then have e: "exceeds_three_sigma now tbl (fst p) (snd p)" by auto
    then have "snd p \<in> set (org_hours now tbl (fst p))"
      by (simp add: exceeds_three_sigma_def)
    then have "(snd p, fst p) \<in> set (window_buckets now tbl)"
      by (simp add: bucket_iff)
    with e have "(snd p, fst p) \<in> set ?flagged" by simp
    then have "prod.swap (snd p, fst p) \<in> set (map prod.swap ?flagged)"
      by (simp only: set_map image_eqI)
    then show "p \<in> set (map prod.swap ?flagged)" by simp
  qed
  finally show ?thesis using d by simp
qed

lemma three_sqrt_less_iff:
  "0 \<le> v \<Longrightarrow> (3 * sqrt v < y) = (0 < y \<and> 9 * v < y\<^sup>2)"
proof -
  assume v: "0 \<le> v"
  have s: "3 * sqrt v = sqrt (9 * v)"
    by (simp add: real_sqrt_mult)
  show ?thesis
  proof (cases "0 < y")
    case True
    then have "sqrt (9 * v) < y \<longleftrightarrow> sqrt (9 * v) < sqrt (y\<^sup>2)"
      by simp
    also have "\<dots> \<longleftrightarrow> 9 * v < y\<^sup>2"
      by (rule real_sqrt_less_iff)
    finally show ?thesis using True s by simp
  next
    case False
    have "0 \<le> sqrt (9 * v)" using v by simp
    with False s show ?thesis by linarith
  qed
qed

lemma exceeds_sqrt_iff:
  "0 \<le> v \<Longrightarrow> (a + 3 * sqrt v < x) = (a < x \<and> 9 * v < (x - a)\<^sup>2)"
  using three_sqrt_less_iff [of v "x - a"] by (simp add: less_diff_eq add.commute)

lemma demo_anomalies_query:
  "anomalies_query demo_now demo_table =
     [\<lparr>ar_organization_id = 1, ar_hour = 36000000000, ar_hourly_cost = 12, ar_avg_cost = 2,
       ar_request_count = 2\<rparr>]"
  by (simp add: anomalies_query_def hourly_costs_def avg_costs_def demo_table_def demo_now_def
      demo_record_def clock_defs group_by_def order_by_desc_def hourly_cost_row_def
      avg_cost_row_def exceeds_threshold_def anomaly_row_def sql_STDDEV_def sql_AVG_def
      sql_SUM_def time_bucket_def three_sqrt_less_iff exceeds_sqrt_iff)






lemma sum_list_shifted_squares:
  fixes f :: "'a \<Rightarrow> real"
  shows "sum_list (map (\<lambda>y. (f y - c)\<^sup>2) ys)
           = sum_list (map (\<lambda>y. (f y)\<^sup>2) ys) - 2 * c * sum_list (map f ys) + real (length ys) * c\<^sup>2"
  by (induction ys) (simp_all add: power2_eq_square algebra_simps)

lemma sum_list_cauchy:
  fixes f :: "'a \<Rightarrow> real"
  shows "(sum_list (map f ys))\<^sup>2 \<le> real (length ys) * sum_list (map (\<lambda>y. (f y)\<^sup>2) ys)"
proof (cases "ys = []")
  case True
  then show ?thesis by simp
next
  case False
  define n where "n = real (length ys)"
  define s where "s = sum_list (map f ys)"
  define q where "q = sum_list (map (\<lambda>y. (f y)\<^sup>2) ys)"
  from False have n: "0 < n" by (simp add: n_def)
  have "0 \<le> sum_list (map (\<lambda>y. (f y - s / n)\<^sup>2) ys)"
    by (rule sum_list_nonneg) auto
  then have "0 \<le> q - 2 * (s / n) * s + n * (s / n)\<^sup>2"
    unfolding sum_list_shifted_squares q_def s_def n_def .
  also have "q - 2 * (s / n) * s + n * (s / n)\<^sup>2 = q - s\<^sup>2 / n"
    using n by (simp add: power2_eq_square field_simps)
  finally have "s\<^sup>2 / n \<le> q" by simp
  then have "s\<^sup>2 \<le> n * q"
    using n by (simp add: field_simps)
  then show ?thesis
    by (simp add: n_def s_def q_def)
qed

text \<open>No value lies further from the mean than \<open>(n - 1) / sqrt n\<close> sample deviations.\<close>

lemma deviation_bound:
  assumes x: "x \<in> set xs"
  shows "real (length xs) * (x - sql_AVG xs)\<^sup>2
           \<le> real (length xs - 1) * sum_list (map (\<lambda>y. (y - sql_AVG xs)\<^sup>2) xs)"
proof -
  define m where "m = sql_AVG xs"
  from x obtain as bs where xs: "xs = as @ x # bs"
    by (auto simp: in_set_conv_decomp)
  define ys where "ys = as @ bs"
  define d where "d = x - m"
  define q where "q = sum_list (map (\<lambda>y. (y - m)\<^sup>2) ys)"
  have len: "length xs = Suc (length ys)"
    by (simp add: xs ys_def)
  have "sum_list (map (\<lambda>y. y - m) xs) = sum_list xs - real (length xs) * m"
    by (induction xs) (simp_all add: algebra_simps)
  also have "\<dots> = 0"
    by (simp add: m_def sql_AVG_def len)
  finally have "sum_list (map (\<lambda>y. y - m) ys) = - d"
    by (simp add: xs ys_def d_def)
  with sum_list_cauchy [of "\<lambda>y. y - m" ys] have c: "d\<^sup>2 \<le> real (length ys) * q"
    by (simp add: q_def)
  have s: "sum_list (map (\<lambda>y. (y - m)\<^sup>2) xs) = d\<^sup>2 + q"
    by (simp add: xs ys_def d_def q_def)
  have "real (Suc (length ys)) * d\<^sup>2 = real (length ys) * d\<^sup>2 + d\<^sup>2"
    by (simp add: algebra_simps)
  also have "\<dots> \<le> real (length ys) * d\<^sup>2 + real (length ys) * q"
    using c by simp
  also have "\<dots> = real (length ys) * (d\<^sup>2 + q)"
    by (simp add: algebra_simps)
  finally show ?thesis
    unfolding m_def [symmetric] s len d_def [symmetric] by simp
qed

lemma three_sigma_needs_eleven:
  assumes sd: "sql_STDDEV xs = Some sd" and x: "x \<in> set xs" and gt: "x > sql_AVG xs + 3 * sd"
  shows "11 \<le> length xs"
proof (rule ccontr)
  assume "\<not> 11 \<le> length xs"
  then have le: "length xs \<le> 10" by simp
  define N where "N = real (length xs)"
  define d where "d = x - sql_AVG xs"
  define S where "S = sum_list (map (\<lambda>y. (y - sql_AVG xs)\<^sup>2) xs)"
  from sd have n2: "2 \<le> length xs" and sd_eq: "sd = sqrt (S / real (length xs - 1))"
    by (auto simp: sql_STDDEV_def S_def split: if_splits)
  have N: "2 \<le> N" "N \<le> 10" and N1: "real (length xs - 1) = N - 1"
    using n2 le by (simp_all add: N_def of_nat_diff)
  have S0: "0 \<le> S"
    unfolding S_def by (rule sum_list_nonneg) auto
  then have v0: "0 \<le> S / (N - 1)"
    using N by simp
  from gt have "sql_AVG xs + 3 * sqrt (S / (N - 1)) < x"
    unfolding sd_eq N1 .
  then have d0: "0 < d" and big: "9 * (S / (N - 1)) < d\<^sup>2"
    using exceeds_sqrt_iff [OF v0, of "sql_AVG xs" x] by (simp_all add: d_def)
  from big N have big': "9 * S < (N - 1) * d\<^sup>2"
    by (simp add: field_simps)
  have bound: "N * d\<^sup>2 \<le> (N - 1) * S"
    using deviation_bound [OF x] unfolding N1 N_def d_def S_def .
  have "9 * (N * d\<^sup>2) \<le> (N - 1) * (9 * S)"
    using bound by simp
  also have "\<dots> < (N - 1) * ((N - 1) * d\<^sup>2)"
    using big' N by (intro mult_strict_left_mono) simp_all
  finally have "(9 * N) * d\<^sup>2 < ((N - 1) * (N - 1)) * d\<^sup>2"
    by (simp add: mult.assoc)
  moreover have "0 < d\<^sup>2" using d0 by simp
  ultimately have "9 * N < (N - 1) * (N - 1)"
    by (simp only: mult_less_cancel_right_pos)
  moreover have "(N - 1) * (N - 1) \<le> 9 * (N - 1)"
    using N by (intro mult_right_mono) simp_all
  ultimately show False using N by simp
qed



text \<open>
  Claim C6, as the specification states it, fails: in the example table the organization
  has eleven hours of history, none older than eleven hours, and its last hour is flagged.
\<close>

theorem anomaly_eligibility_counterexample:
  "length (org_hours demo_now demo_table 1) = 11 \<and>
   list_all (\<lambda>r. demo_now - 11 * hour \<le> time r) demo_table \<and>
   map ar_organization_id (anomalies_query demo_now demo_table) = [1]"
  by (simp add: demo_anomalies_query)
     (simp add: org_hours_def trailing_window_def demo_table_def demo_now_def demo_record_def
        clock_defs time_bucket_def)

text \<open>
  Claim C6, as the code has it.  The query has no test of how much history an organization
  has; what the threshold itself implies is that an organization with fewer than eleven
  hourly buckets in the window has no anomaly, since no value of \<open>n\<close> samples lies more than
  \<open>(n - 1) / sqrt n\<close> sample deviations above their mean.
\<close>

theorem anomaly_needs_eleven_buckets:
  "length (org_hours now tbl org) < 11 \<Longrightarrow>
     org \<notin> ar_organization_id ` set (anomalies_query now tbl)"
proof
  assume few: "length (org_hours now tbl org) < 11"
  assume "org \<in> ar_organization_id ` set (anomalies_query now tbl)"
  then obtain r where r: "r \<in> set (anomalies_query now tbl)" and org: "org = ar_organization_id r"
    by auto
  from r have "(ar_organization_id r, ar_hour r)
                 \<in> set (map (\<lambda>r. (ar_organization_id r, ar_hour r)) (anomalies_query now tbl))"
    by (simp only: set_map image_eqI)
  then have e: "exceeds_three_sigma now tbl org (ar_hour r)"
    using anomaly_keys [of now tbl] by (simp add: org)
  then obtain sd where sd: "sql_STDDEV (org_hourly_costs now tbl org) = Some sd"
    and gt: "bucket_cost now tbl org (ar_hour r) > sql_AVG (org_hourly_costs now tbl org) + 3 * sd"
    and h: "ar_hour r \<in> set (org_hours now tbl org)"
    by (auto simp: exceeds_three_sigma_def split: option.splits)
  from h have "bucket_cost now tbl org (ar_hour r) \<in> set (org_hourly_costs now tbl org)"
    by (simp add: org_hourly_costs_def)
  from three_sigma_needs_eleven [OF sd this gt] have "11 \<le> length (org_hours now tbl org)"
    by (simp add: org_hourly_costs_def)
  with few show False by simp
qed

theorem anomaly_needs_eleven_buckets_witness:
  "length (org_hours demo_now steady_table 1) = 10 \<and>
   1 \<notin> ar_organization_id ` set (anomalies_query demo_now steady_table)"
proof -
  have n: "length (org_hours demo_now steady_table 1) = 10"
    by (simp add: org_hours_def trailing_window_def steady_table_def demo_now_def demo_record_def
        clock_defs time_bucket_def)
  then have "length (org_hours demo_now steady_table 1) < 11"
    by simp
  from anomaly_needs_eleven_buckets [OF this] n show ?thesis
    by simp
qed

end
